theory Spec2Isabelle
  imports Main
begin

unbundle bit_operations_syntax

section \<open>JavaScript values\<close>

text \<open>
  The values that flow through \<^verbatim>\<open>src/frisby/spec.js\<close>: option objects, timeouts,
  response bodies. Numbers are the integer-valued ones (timeouts are milliseconds);
  objects are association lists from property names to values, the first binding of
  a key being the property's value. Arrays and function values are not part of this
  universe.
\<close>

datatype jsval =
    JUndefined
  | JNull
  | JBool bool
  | JNum int
  | JStr string
  | JObj "(string \<times> jsval) list"

text \<open>Things a \<^verbatim>\<open>throw\<close> can carry, told apart by constructor as JavaScript does by class.\<close>

datatype error =
    TypeError string
  | Error string
  | HostError string

text \<open>ToBoolean: what \<^verbatim>\<open>!x\<close>, \<^verbatim>\<open>x && y\<close> and \<^verbatim>\<open>x || y\<close> test.\<close>

fun truthy :: "jsval \<Rightarrow> bool" where
  "truthy JUndefined = False"
| "truthy JNull = False"
| "truthy (JBool b) = b"
| "truthy (JNum n) = (n \<noteq> 0)"
| "truthy (JStr s) = (s \<noteq> [])"
| "truthy (JObj kvs) = True"

text \<open>
  Property read \<^verbatim>\<open>v.k\<close> for the keys the code reads (\<^verbatim>\<open>request\<close>, \<^verbatim>\<open>timeout\<close>,
  \<^verbatim>\<open>body\<close>, \<^verbatim>\<open>headers\<close>): a read on \<^verbatim>\<open>undefined\<close> or \<^verbatim>\<open>null\<close> throws a TypeError,
  a read on another primitive finds nothing, a read on an object finds the property
  or \<^verbatim>\<open>undefined\<close>.
\<close>

fun get_prop :: "jsval \<Rightarrow> string \<Rightarrow> error + jsval" where
  "get_prop JUndefined k = Inl (TypeError (''Cannot read property '' @ k @ '' of undefined''))"
| "get_prop JNull k = Inl (TypeError (''Cannot read property '' @ k @ '' of null''))"
| "get_prop (JObj kvs) k = Inr (case map_of kvs k of None \<Rightarrow> JUndefined | Some v \<Rightarrow> v)"
| "get_prop v k = Inr JUndefined"

definition TIMEOUT_DEFAULT :: jsval where
  "TIMEOUT_DEFAULT = JNum 5000"

section \<open>The transport's objects\<close>

text \<open>
  \<^verbatim>\<open>fetch.Headers\<close>, \<^verbatim>\<open>fetch.Request\<close> and \<^verbatim>\<open>fetch.Response\<close> belong to node-fetch.
  Headers are a map from the header name, as the code spells it, to its value. A
  response carries the fields \<^verbatim>\<open>fromJSON\<close> passes to the constructor, the payload
  text, and the \<^verbatim>\<open>_body\<close> field the spec attaches (\<open>None\<close> while unset).
\<close>

type_synonym headers = "string \<rightharpoonup> string"

definition headers_set :: "headers \<Rightarrow> string \<Rightarrow> string \<Rightarrow> headers" where
  "headers_set h name v = h(name \<mapsto> v)"

definition headers_has :: "headers \<Rightarrow> string \<Rightarrow> bool" where
  "headers_has h name = (h name \<noteq> None)"

definition headers_get :: "headers \<Rightarrow> string \<Rightarrow> string option" where
  "headers_get h name = h name"

record response =
  r_url :: string
  r_status :: int
  r_statusText :: string
  r_headers :: headers
  r_size :: nat
  r_timeout :: int
  r_payload :: string
  u_body :: "jsval option"

record request =
  q_url :: string
  q_params :: "(string \<times> jsval) list"

section \<open>Asynchronous values\<close>

text \<open>
  A promise is represented by the way it settles. What a continuation hands back is
  a plain value, a promise, or another spec; of a returned spec the chain sees its
  root task (\<open>None\<close> when that spec was never started) and its own
  \<^verbatim>\<open>_lastResult\<close>. A continuation is a function of its argument that returns or
  throws; calls it might make on the spec it is chained to are not represented.
\<close>

datatype outcome = Fulfilled jsval | Rejected error

datatype aval =
    Plain jsval
  | Prom outcome
  | SpecV "outcome option" aval

datatype cont_result = Threw error | Returned aval

type_synonym cont = "jsval \<Rightarrow> cont_result"

text \<open>
  An assertion closure built by \<^verbatim>\<open>_getExpectRunner\<close> captures the handler, the
  stored arguments and the must-pass flag. A handler returns normally (\<open>None\<close>) or
  throws.
\<close>

type_synonym handler = "response option \<Rightarrow> jsval list \<Rightarrow> error option"

datatype runner = Runner handler "jsval list" bool

text \<open>
  The callbacks attached to the root task \<^verbatim>\<open>_fetch\<close>: every one is the wrapper that
  \<^verbatim>\<open>then\<close> builds, around a user continuation or around the assertion loop of
  \<^verbatim>\<open>_runExpects\<close>.
\<close>

datatype reaction = UserThen cont | ExpectsLoop

text \<open>
  What the root task waits for (the synthetic response, or the transport called with
  a request and a timeout option), and the callbacks registered on it so far.
\<close>

datatype source = Synthetic response | Network request jsval

record task =
  t_source :: source
  t_reactions :: "reaction list"

section \<open>The spec\<close>

text \<open>
  The fields of \<^verbatim>\<open>FrisbySpec\<close>, a leading underscore written \<open>u_\<close>. A field the
  constructor leaves \<^verbatim>\<open>undefined\<close> is \<open>None\<close>.
\<close>

record spec =
  u_fetch :: "task option"
  u_request :: "request option"
  u_response :: "response option"
  u_expects :: "runner list"
  u_expectError :: "(error \<Rightarrow> error + jsval) option"
  u_timeout :: jsval
  u_setupDefaults :: jsval
  u_lastResult :: aval

text \<open>
  \<^verbatim>\<open>_doneFn\<close> with \<^verbatim>\<open>done\<close>, and \<^verbatim>\<open>use\<close> and \<^verbatim>\<open>promise\<close>, have no part in the properties
  below and are left out. An inspector is \<^verbatim>\<open>then\<close> with a continuation that logs and
  returns nothing.
\<close>

definition new_spec :: spec where
  "new_spec = \<lparr> u_fetch = None, u_request = None, u_response = None, u_expects = [],
     u_expectError = None, u_timeout = TIMEOUT_DEFAULT, u_setupDefaults = JObj [],
     u_lastResult = Plain JUndefined \<rparr>"

section \<open>Configuration and defaults\<close>

text \<open>
  Writing a property: the value of an existing key is replaced in place, a new key
  goes to the end.
\<close>

fun set_prop :: "(string \<times> jsval) list \<Rightarrow> string \<Rightarrow> jsval \<Rightarrow> (string \<times> jsval) list" where
  "set_prop [] k v = [(k, v)]"
| "set_prop ((k', v') # kvs) k v =
     (if k' = k then (k, v) # kvs else (k', v') # set_prop kvs k v)"

text \<open>
  \<^verbatim>\<open>setup(opts, replace)\<close>. \<^verbatim>\<open>_.merge\<close> is lodash's and is the parameter \<open>mrg\<close>. The
  assignment to \<^verbatim>\<open>_setupDefaults\<close> comes first, so a throw on the next line leaves it
  done: the error is returned with the spec as it is at the throw.
\<close>

definition setup_m :: "(jsval \<Rightarrow> jsval \<Rightarrow> jsval) \<Rightarrow> spec \<Rightarrow> jsval \<Rightarrow> jsval \<Rightarrow> (error \<times> spec) + spec" where
  "setup_m mrg s opts replace =
     (let s1 = s\<lparr>u_setupDefaults := (if truthy replace then opts else mrg (u_setupDefaults s) opts)\<rparr>
      in case get_prop (u_setupDefaults s1) ''request'' of
           Inl e \<Rightarrow> Inl (e, s1)
         | Inr r \<Rightarrow>
             (case get_prop r ''timeout'' of
                Inl e \<Rightarrow> Inl (e, s1)
              | Inr t \<Rightarrow> Inr (s1\<lparr>u_timeout := (if truthy t then t else TIMEOUT_DEFAULT)\<rparr>)))"

text \<open>
  \<^verbatim>\<open>timeout(timeout)\<close> answers with a value (the getter) or with the spec (the
  setter). A call without argument passes \<^verbatim>\<open>undefined\<close> and so runs the getter
  branch, \<open>timeout_getter\<close>.
\<close>

datatype timeout_result = Got jsval | Chained spec

definition timeout_getter :: "spec \<Rightarrow> error + jsval" where
  "timeout_getter s =
     (case get_prop (u_setupDefaults s) ''request'' of
        Inl e \<Rightarrow> Inl e
      | Inr r \<Rightarrow>
          if truthy r then
            (case get_prop r ''timeout'' of
               Inl e \<Rightarrow> Inl e
             | Inr rt \<Rightarrow> if truthy rt then Inr rt else Inr (u_timeout s))
          else Inr (u_timeout s))"

definition timeout :: "spec \<Rightarrow> jsval \<Rightarrow> error + timeout_result" where
  "timeout s t =
     (if \<not> truthy t then
        (case timeout_getter s of Inl e \<Rightarrow> Inl e | Inr v \<Rightarrow> Inr (Got v))
      else Inr (Chained (s\<lparr>u_timeout := t\<rparr>)))"

section \<open>Building the request\<close>

text \<open>
  \<^verbatim>\<open>Object.assign(target, source)\<close> copies the own enumerable properties of the
  source onto the target, in order, a later write replacing an earlier one. A source
  that is \<^verbatim>\<open>undefined\<close> or \<^verbatim>\<open>null\<close> is skipped, a string contributes its characters
  under their indices, any other primitive contributes nothing.
\<close>

fun own_entries :: "(string \<times> jsval) list \<Rightarrow> (string \<times> jsval) list" where
  "own_entries [] = []"
| "own_entries ((k, v) # kvs) = (k, v) # filter (\<lambda>(k', v'). k' \<noteq> k) (own_entries kvs)"

fun digit_char :: "nat \<Rightarrow> char" where
  "digit_char n = char_of (48 + n)"

fun show_nat :: "nat \<Rightarrow> string" where
  "show_nat n = (if n < 10 then [digit_char n] else show_nat (n div 10) @ [digit_char (n mod 10)])"

declare show_nat.simps [simp del]

fun own_props :: "jsval \<Rightarrow> (string \<times> jsval) list" where
  "own_props (JObj kvs) = own_entries kvs"
| "own_props (JStr cs) = map (\<lambda>i. (show_nat i, JStr [cs ! i])) [0..<length cs]"
| "own_props v = []"

definition object_assign :: "(string \<times> jsval) list \<Rightarrow> jsval \<Rightarrow> (string \<times> jsval) list" where
  "object_assign target src = fold (\<lambda>(k, v) acc. set_prop acc k v) (own_props src) target"

text \<open>\<^verbatim>\<open>_.isObject\<close> and \<^verbatim>\<open>_.isUndefined\<close> on this universe of values.\<close>

fun isObject :: "jsval \<Rightarrow> bool" where
  "isObject (JObj kvs) = True"
| "isObject v = False"

fun isUndefined :: "jsval \<Rightarrow> bool" where
  "isUndefined JUndefined = True"
| "isUndefined v = False"

text \<open>\<^verbatim>\<open>params || {}\<close>.\<close>

definition or_empty :: "jsval \<Rightarrow> jsval" where
  "or_empty params = (if truthy params then params else JObj [])"

text \<open>
  \<^verbatim>\<open>fetch(url, params)\<close>, the synchronous part: the merged configuration, the request
  descriptor, and a fresh root task with the effective timeout handed to the
  transport and no callbacks yet. \<^verbatim>\<open>new fetch.Request\<close> is the transport's: the descriptor
  keeps what it was given.
\<close>

definition fetchParams :: "spec \<Rightarrow> jsval \<Rightarrow> error + (string \<times> jsval) list" where
  "fetchParams s params =
     (case get_prop (u_setupDefaults s) ''request'' of
        Inl e \<Rightarrow> Inl e
      | Inr dflt \<Rightarrow> Inr (object_assign (object_assign [] dflt) (or_empty params)))"

definition fetch :: "spec \<Rightarrow> string \<Rightarrow> jsval \<Rightarrow> error + spec" where
  "fetch s url params =
     (case fetchParams s params of
        Inl e \<Rightarrow> Inl e
      | Inr fp \<Rightarrow>
          (case timeout_getter s of
             Inl e \<Rightarrow> Inl e
           | Inr tmo \<Rightarrow>
               Inr (s\<lparr>u_request := Some \<lparr>q_url = url, q_params = fp\<rparr>,
                      u_fetch := Some \<lparr>t_source = Network \<lparr>q_url = url, q_params = fp\<rparr> tmo,
                                       t_reactions = []\<rparr>\<rparr>)))"

definition get :: "spec \<Rightarrow> string \<Rightarrow> error + spec" where
  "get s url = fetch s url JUndefined"

definition del :: "spec \<Rightarrow> string \<Rightarrow> error + spec" where
  "del s url = fetch s url (JObj [(''method'', JStr ''delete'')])"

text \<open>
  \<^verbatim>\<open>_requestWithBody(method, url, params)\<close>. \<^verbatim>\<open>JSON.stringify\<close> is the parameter
  \<open>stringify\<close>, answering a text or \<^verbatim>\<open>undefined\<close> (\<open>None\<close>). The three steps of the
  source: an object-valued \<^verbatim>\<open>body\<close> is replaced by its JSON text in \<open>params\<close>
  itself; without \<^verbatim>\<open>body\<close> and \<^verbatim>\<open>headers\<close> the whole of \<open>params\<close> becomes the body
  of \<open>postParams\<close>; \<open>params\<close> is then assigned over \<open>postParams\<close>. Both tests are
  guarded by \<^verbatim>\<open>params &&\<close>, so the property reads cannot throw.
\<close>

definition text_or_undefined :: "string option \<Rightarrow> jsval" where
  "text_or_undefined t = (case t of None \<Rightarrow> JUndefined | Some cs \<Rightarrow> JStr cs)"

definition encode_body :: "(jsval \<Rightarrow> string option) \<Rightarrow> jsval \<Rightarrow> jsval" where
  "encode_body stringify params =
     (case params of
        JObj kvs \<Rightarrow>
          (case map_of kvs ''body'' of
             Some b \<Rightarrow> if isObject b then JObj (set_prop kvs ''body'' (text_or_undefined (stringify b))) else params
           | None \<Rightarrow> params)
      | _ \<Rightarrow> params)"

definition prop_or_undefined :: "jsval \<Rightarrow> string \<Rightarrow> jsval" where
  "prop_or_undefined v k = (case get_prop v k of Inl e \<Rightarrow> JUndefined | Inr x \<Rightarrow> x)"

definition postParams :: "(jsval \<Rightarrow> string option) \<Rightarrow> string \<Rightarrow> jsval \<Rightarrow> (string \<times> jsval) list" where
  "postParams stringify method params =
     (if truthy params \<and> isUndefined (prop_or_undefined params ''body'')
          \<and> isUndefined (prop_or_undefined params ''headers'')
      then [(''method'', JStr method), (''body'', text_or_undefined (stringify params))]
      else [(''method'', JStr method)])"

definition requestWithBody :: "(jsval \<Rightarrow> string option) \<Rightarrow> spec \<Rightarrow> string \<Rightarrow> string \<Rightarrow> jsval \<Rightarrow> error + spec" where
  "requestWithBody stringify s method url params =
     (let params1 = encode_body stringify params
      in fetch s url (JObj (object_assign (postParams stringify method params1) (or_empty params1))))"

definition patch :: "(jsval \<Rightarrow> string option) \<Rightarrow> spec \<Rightarrow> string \<Rightarrow> jsval \<Rightarrow> error + spec" where
  "patch stringify s url params = requestWithBody stringify s ''PATCH'' url params"

definition post :: "(jsval \<Rightarrow> string option) \<Rightarrow> spec \<Rightarrow> string \<Rightarrow> jsval \<Rightarrow> error + spec" where
  "post stringify s url params = requestWithBody stringify s ''POST'' url params"

definition put :: "(jsval \<Rightarrow> string option) \<Rightarrow> spec \<Rightarrow> string \<Rightarrow> jsval \<Rightarrow> error + spec" where
  "put stringify s url params = requestWithBody stringify s ''PUT'' url params"

section \<open>The failure channel\<close>

text \<open>
  The host test runner is seen through two globals: \<^verbatim>\<open>typeof fail === 'function'\<close>
  and \<^verbatim>\<open>typeof expect === 'function'\<close>. Neither primitive throws.
\<close>

record host =
  has_fail :: bool
  has_expect :: bool

text \<open>
  What the run of a spec leaves behind: each call of \<^verbatim>\<open>_fetchErrorHandler\<close> with the
  error it was given and the branch it took, each call of an assertion handler with
  the response it was given, each call of a user continuation with its argument.
\<close>

datatype route = Custom | HostFail | HostExpect | Reraise | Unbound

datatype event =
    Channel route error
  | Checked "response option"
  | Invoked jsval

text \<open>
  \<^verbatim>\<open>_fetchErrorHandler(err)\<close> reads \<^verbatim>\<open>this._expectError\<close>, so it needs its \<^verbatim>\<open>this\<close>: a
  call through \<^verbatim>\<open>.bind(this)\<close> or as a method has the spec, a call of the bare function
  has \<^verbatim>\<open>undefined\<close> (the file is in strict mode) and the read throws. The result is
  what the call returns or throws.
\<close>

definition fetchErrorHandler :: "host \<Rightarrow> spec option \<Rightarrow> error \<Rightarrow> event \<times> (error + jsval)" where
  "fetchErrorHandler h this err =
     (case this of
        None \<Rightarrow> (Channel Unbound err,
                 Inl (TypeError ''Cannot read property _expectError of undefined''))
      | Some s \<Rightarrow>
          (case u_expectError s of
             Some f \<Rightarrow> (Channel Custom err, f err)
           | None \<Rightarrow>
               if has_fail h then (Channel HostFail err, Inr JUndefined)
               else if has_expect h then (Channel HostExpect err, Inr JUndefined)
               else (Channel Reraise err, Inl err)))"





section \<open>Registering and running assertions\<close>

text \<open>
  The first argument of \<^verbatim>\<open>expect\<close> is a function or a name looked up in the registry
  \<^verbatim>\<open>expectHandlers\<close>, which belongs to \<^verbatim>\<open>./expects\<close> and is the parameter \<open>reg\<close>.
\<close>

datatype expect_name = Named string | Inline handler

definition addExpect :: "spec \<Rightarrow> runner \<Rightarrow> spec" where
  "addExpect s r = s\<lparr>u_expects := u_expects s @ [r]\<rparr>"

text \<open>\<^verbatim>\<open>new Error("Expectation '" + expectName + "' is not defined.")\<close>\<close>

definition not_defined :: "string \<Rightarrow> error" where
  "not_defined n = Error (''Expectation '' @ [CHR 0x27] @ n @ [CHR 0x27] @ '' is not defined.'')"

definition getExpectRunner ::
  "(string \<rightharpoonup> handler) \<Rightarrow> spec \<Rightarrow> expect_name \<Rightarrow> jsval list \<Rightarrow> bool \<Rightarrow> error + spec" where
  "getExpectRunner reg s expectName expectArgs expectPass =
     (case expectName of
        Inline f \<Rightarrow> Inr (addExpect s (Runner f expectArgs expectPass))
      | Named n \<Rightarrow>
          (case reg n of
             None \<Rightarrow> Inl (not_defined n)
           | Some f \<Rightarrow> Inr (addExpect s (Runner f expectArgs expectPass))))"

definition expect :: "(string \<rightharpoonup> handler) \<Rightarrow> spec \<Rightarrow> expect_name \<Rightarrow> jsval list \<Rightarrow> error + spec" where
  "expect reg s expectName expectArgs = getExpectRunner reg s expectName expectArgs True"

definition expectNot :: "(string \<rightharpoonup> handler) \<Rightarrow> spec \<Rightarrow> expect_name \<Rightarrow> jsval list \<Rightarrow> error + spec" where
  "expectNot reg s expectName expectArgs = getExpectRunner reg s expectName expectArgs False"

text \<open>
  The closure \<^verbatim>\<open>_getExpectRunner\<close> registers, called by the loop with
  \<^verbatim>\<open>this._response\<close>: the handler runs inside \<^verbatim>\<open>try\<close>; what it throws goes to the
  failure channel when a pass was expected and is dropped otherwise. The closure
  itself throws only what the failure channel throws.
\<close>

definition run_runner :: "host \<Rightarrow> spec \<Rightarrow> runner \<Rightarrow> event list \<times> error option" where
  "run_runner h s r =
     (case r of Runner expectHandler expectArgs expectPass \<Rightarrow>
        (case expectHandler (u_response s) expectArgs of
           None \<Rightarrow> ([Checked (u_response s)], None)
         | Some e \<Rightarrow>
             if expectPass then
               (case fetchErrorHandler h (Some s) e of
                  (ev, Inl e') \<Rightarrow> ([Checked (u_response s), ev], Some e')
                | (ev, Inr v) \<Rightarrow> ([Checked (u_response s), ev], None))
             else ([Checked (u_response s)], None)))"

text \<open>The \<^verbatim>\<open>for\<close> loop of \<^verbatim>\<open>_runExpects\<close>; a throw leaves the loop.\<close>

fun expects_loop :: "host \<Rightarrow> spec \<Rightarrow> runner list \<Rightarrow> event list \<times> error option" where
  "expects_loop h s [] = ([], None)"
| "expects_loop h s (r # rs) =
     (case run_runner h s r of
        (ev, Some e) \<Rightarrow> (ev, Some e)
      | (ev, None) \<Rightarrow> (case expects_loop h s rs of (ev', t) \<Rightarrow> (ev @ ev', t)))"

section \<open>Continuations\<close>

definition not_started :: error where
  "not_started = Error ''Frisby spec not started. You must call fetch() first to begin a Frisby test.''"

text \<open>\<^verbatim>\<open>_ensureHasFetched\<close> followed by \<^verbatim>\<open>this._fetch.then(...)\<close>: one more callback on the root task.\<close>

definition register :: "spec \<Rightarrow> reaction \<Rightarrow> error + spec" where
  "register s r =
     (case u_fetch s of
        None \<Rightarrow> Inl not_started
      | Some t \<Rightarrow> Inr (s\<lparr>u_fetch := Some (t\<lparr>t_reactions := t_reactions t @ [r]\<rparr>)\<rparr>))"

text \<open>\<^verbatim>\<open>then(fn)\<close>: a spec given in place of a function is handed back at once.\<close>

datatype then_arg = Cont cont | OtherSpec spec

definition then_m :: "spec \<Rightarrow> then_arg \<Rightarrow> error + spec" where
  "then_m s fn = (case fn of OtherSpec other \<Rightarrow> Inr other | Cont f \<Rightarrow> register s (UserThen f))"

definition runExpects :: "spec \<Rightarrow> error + spec" where
  "runExpects s = register s ExpectsLoop"

text \<open>
  How the promise a callback returns rejects, when the callback's result is this
  value: a rejected promise passes its error on, and a spec that was never started
  throws from its \<^verbatim>\<open>then\<close> when the promise asks it to resolve.
\<close>

fun rejection :: "aval \<Rightarrow> error option" where
  "rejection (Prom (Rejected e)) = Some e"
| "rejection (SpecV None l) = Some not_started"
| "rejection a = None"

text \<open>
  The callback \<^verbatim>\<open>then\<close> attaches, run with the resolved value \<open>b\<close> of the root task
  while \<^verbatim>\<open>_lastResult\<close> is the second argument. It answers with the new
  \<^verbatim>\<open>_lastResult\<close>, with the argument \<open>fn\<close> is called with (\<open>None\<close> when it is never
  called), and with the error the callback's promise rejects with, if it does.

  With a promise or a spec in \<^verbatim>\<open>_lastResult\<close> the callback hands \<open>fn\<close> to that
  value's \<^verbatim>\<open>then\<close> and leaves \<^verbatim>\<open>_lastResult\<close> alone: a promise calls \<open>fn\<close> with the
  value it fulfils with; a spec registers \<open>fn\<close> on its own root task, where this same
  callback runs against that spec's \<^verbatim>\<open>_lastResult\<close>, and what \<open>fn\<close> throws there goes
  to that spec's failure channel. Otherwise \<open>fn\<close> is called with \<open>b\<close> and its result
  is stored.
\<close>

fun then_callback :: "jsval \<Rightarrow> aval \<Rightarrow> cont \<Rightarrow> aval \<times> jsval option \<times> error option" where
  "then_callback b (Plain x) fn =
     (case fn b of
        Threw e \<Rightarrow> (Plain x, Some b, Some e)
      | Returned a \<Rightarrow> (a, Some b, rejection a))"
| "then_callback b (Prom (Fulfilled v)) fn =
     (Prom (Fulfilled v), Some v,
      case fn v of Threw e \<Rightarrow> Some e | Returned a \<Rightarrow> rejection a)"
| "then_callback b (Prom (Rejected e)) fn = (Prom (Rejected e), None, Some e)"
| "then_callback b (SpecV None l) fn = (SpecV None l, None, Some not_started)"
| "then_callback b (SpecV (Some (Fulfilled b2)) l) fn =
     (case then_callback b2 l fn of
        (l', called, rej) \<Rightarrow> (SpecV (Some (Fulfilled b2)) l', called, None))"
| "then_callback b (SpecV (Some (Rejected e)) l) fn = (SpecV (Some (Rejected e)) l, None, None)"

text \<open>What a registered callback wraps: the user's function, or the assertion loop.\<close>

definition reaction_fn :: "host \<Rightarrow> spec \<Rightarrow> reaction \<Rightarrow> cont" where
  "reaction_fn h s r =
     (case r of
        UserThen f \<Rightarrow> f
      | ExpectsLoop \<Rightarrow>
          (\<lambda>b. case snd (expects_loop h s (u_expects s)) of
                  None \<Rightarrow> Returned (Plain JUndefined)
                | Some e \<Rightarrow> Threw e))"

definition reaction_events :: "host \<Rightarrow> spec \<Rightarrow> reaction \<Rightarrow> jsval \<Rightarrow> event list" where
  "reaction_events h s r arg =
     (case r of
        UserThen f \<Rightarrow> [Invoked arg]
      | ExpectsLoop \<Rightarrow> fst (expects_loop h s (u_expects s)))"

text \<open>
  One callback of the root task with its \<^verbatim>\<open>.catch(this._fetchErrorHandler.bind(this))\<close>:
  the spec afterwards and the events of this callback.
\<close>

definition run_reaction :: "host \<Rightarrow> spec \<Rightarrow> jsval \<Rightarrow> reaction \<Rightarrow> spec \<times> event list" where
  "run_reaction h s b r =
     (case then_callback b (u_lastResult s) (reaction_fn h s r) of
        (l', called, rej) \<Rightarrow>
          (let s' = s\<lparr>u_lastResult := l'\<rparr>
           in (s',
               (case called of None \<Rightarrow> [] | Some arg \<Rightarrow> reaction_events h s r arg)
               @ (case rej of None \<Rightarrow> [] | Some e \<Rightarrow> [fst (fetchErrorHandler h (Some s') e)]))))"

text \<open>The callbacks of a fulfilled root task run in the order they were attached.\<close>

fun run_reactions :: "host \<Rightarrow> spec \<Rightarrow> jsval \<Rightarrow> reaction list \<Rightarrow> spec \<times> event list list" where
  "run_reactions h s b [] = (s, [])"
| "run_reactions h s b (r # rs) =
     (case run_reaction h s b r of
        (s1, ev) \<Rightarrow> (case run_reactions h s1 b rs of (s2, evs) \<Rightarrow> (s2, ev # evs)))"

text \<open>
  What an asynchronous value resolves to, to compare the chain with: a promise
  resolves to the value it fulfils with; a started spec resolves to its response
  body, or, while a continuation of its own has left an asynchronous result pending
  on it, to what that result resolves to. \<open>None\<close> for a value that is not
  asynchronous or never resolves (a rejected promise, a spec that was not started or
  whose root task rejected).
\<close>

fun resolved_result :: "aval \<Rightarrow> jsval option" where
  "resolved_result (Plain x) = None"
| "resolved_result (Prom (Fulfilled v)) = Some v"
| "resolved_result (Prom (Rejected e)) = None"
| "resolved_result (SpecV None l) = None"
| "resolved_result (SpecV (Some (Rejected e)) l) = None"
| "resolved_result (SpecV (Some (Fulfilled b2)) (Plain x)) = Some b2"
| "resolved_result (SpecV (Some (Fulfilled b2)) l) = resolved_result l"

section \<open>Response acquisition\<close>

text \<open>
  \<^verbatim>\<open>fromJSON(json)\<close>, the synchronous part. \<^verbatim>\<open>jsonString.length\<close> throws when
  \<^verbatim>\<open>JSON.stringify\<close> answered \<^verbatim>\<open>undefined\<close>.
\<close>

definition fromJSON :: "(jsval \<Rightarrow> string option) \<Rightarrow> spec \<Rightarrow> jsval \<Rightarrow> error + spec" where
  "fromJSON stringify s json =
     (case stringify json of
        None \<Rightarrow> Inl (TypeError ''Cannot read property length of undefined'')
      | Some jsonString \<Rightarrow>
          (let headers = headers_set Map.empty ''Content-Type'' ''application/json'';
               resp = \<lparr>r_url = ''/'', r_status = 200, r_statusText = ''OK'', r_headers = headers,
                        r_size = length jsonString, r_timeout = 0, r_payload = jsonString,
                        u_body = None\<rparr>
           in Inr (s\<lparr>u_response := Some resp,
                     u_fetch := Some \<lparr>t_source = Synthetic resp, t_reactions = []\<rparr>\<rparr>)))"

text \<open>\<^verbatim>\<open>String.prototype.indexOf\<close>: the first position of the pattern, or \<open>-1\<close>.\<close>

fun indexOf_from :: "int \<Rightarrow> string \<Rightarrow> string \<Rightarrow> int" where
  "indexOf_from i [] p = (if p = [] then i else - 1)"
| "indexOf_from i (c # cs) p =
     (if take (length p) (c # cs) = p then i else indexOf_from (i + 1) cs p)"

definition indexOf :: "string \<Rightarrow> string \<Rightarrow> int" where
  "indexOf cs p = indexOf_from 0 cs p"

text \<open>
  The test of the network path,
  \<^verbatim>\<open>headers.has('Content-Type') && ~headers.get('Content-Type').indexOf('json')\<close>.
\<close>

definition declares_json :: "response \<Rightarrow> bool" where
  "declares_json resp =
     (headers_has (r_headers resp) ''Content-Type''
      \<and> (case headers_get (r_headers resp) ''Content-Type'' of
             None \<Rightarrow> False
           | Some ct \<Rightarrow> NOT (indexOf ct ''json'') \<noteq> 0))"

text \<open>
  \<^verbatim>\<open>response.json()\<close> and \<^verbatim>\<open>response.text()\<close> are the transport's: the first decodes the
  payload with the parameter \<open>parse\<close> and may reject, the second yields the payload.
\<close>

definition decode :: "(string \<Rightarrow> error + jsval) \<Rightarrow> response \<Rightarrow> error + jsval" where
  "decode parse resp =
     (if declares_json resp then parse (r_payload resp) else Inr (JStr (r_payload resp)))"

text \<open>
  The step both entry points share,
  \<^verbatim>\<open>this._response._body = responseBody; this._runExpects(); return responseBody\<close>.
\<close>

definition resolved :: "spec \<Rightarrow> jsval \<Rightarrow> spec \<times> (error + jsval)" where
  "resolved s responseBody =
     (case u_response s of
        None \<Rightarrow> (s, Inl (TypeError ''Cannot set property _body of undefined''))
      | Some r \<Rightarrow>
          (let s1 = s\<lparr>u_response := Some (r\<lparr>u_body := Some responseBody\<rparr>)\<rparr>
           in case runExpects s1 of
                Inl e \<Rightarrow> (s1, Inl e)
              | Inr s2 \<Rightarrow> (s2, Inr responseBody)))"

text \<open>
  The chain in front of \<^verbatim>\<open>.catch\<close>. The synthetic path decodes the response it was
  created with; the network path asks the transport (the parameter \<open>transport\<close>),
  stores the response and decodes it by content type.
\<close>

definition acquire ::
  "(string \<Rightarrow> error + jsval) \<Rightarrow> (request \<Rightarrow> jsval \<Rightarrow> error + response) \<Rightarrow> spec \<Rightarrow> source
     \<Rightarrow> spec \<times> (error + jsval)" where
  "acquire parse transport s src =
     (case src of
        Synthetic resp \<Rightarrow>
          (case parse (r_payload resp) of
             Inl e \<Rightarrow> (s, Inl e)
           | Inr responseBody \<Rightarrow> resolved s responseBody)
      | Network rq tmo \<Rightarrow>
          (case transport rq tmo of
             Inl e \<Rightarrow> (s, Inl e)
           | Inr resp \<Rightarrow>
               (case decode parse resp of
                  Inl e \<Rightarrow> (s\<lparr>u_response := Some resp\<rparr>, Inl e)
                | Inr responseBody \<Rightarrow> resolved (s\<lparr>u_response := Some resp\<rparr>) responseBody)))"

text \<open>
  The handler each entry point gives to \<^verbatim>\<open>.catch\<close>: \<^verbatim>\<open>fetch\<close> passes
  \<^verbatim>\<open>this._fetchErrorHandler.bind(this)\<close>, \<^verbatim>\<open>fromJSON\<close> passes \<^verbatim>\<open>this._fetchErrorHandler\<close>.
\<close>

definition catch_this :: "source \<Rightarrow> spec \<Rightarrow> spec option" where
  "catch_this src s = (case src of Synthetic resp \<Rightarrow> None | Network rq tmo \<Rightarrow> Some s)"

record settled =
  s_final :: spec
  s_root :: outcome
  s_root_events :: "event list"
  s_callback_events :: "event list list"

definition reactions_of :: "spec \<Rightarrow> reaction list" where
  "reactions_of s = (case u_fetch s of None \<Rightarrow> [] | Some t \<Rightarrow> t_reactions t)"

text \<open>
  Once the root task has settled: fulfilled, its callbacks run in order; rejected,
  none runs and the \<^verbatim>\<open>.catch\<close> of every \<^verbatim>\<open>then\<close> receives the error.
\<close>

definition finish :: "host \<Rightarrow> spec \<Rightarrow> outcome \<Rightarrow> event list \<Rightarrow> settled" where
  "finish h s root evs =
     (case root of
        Fulfilled b \<Rightarrow>
          (case run_reactions h s b (reactions_of s) of
             (s', cev) \<Rightarrow>
               \<lparr>s_final = s', s_root = root, s_root_events = evs, s_callback_events = cev\<rparr>)
      | Rejected e \<Rightarrow>
          \<lparr>s_final = s, s_root = root, s_root_events = evs,
            s_callback_events = map (\<lambda>r. [fst (fetchErrorHandler h (Some s) e)]) (reactions_of s)\<rparr>)"

text \<open>
  The asynchronous part of a spec, run after its synchronous chain of calls: the root
  task settles and its callbacks run. \<open>None\<close> when no root task exists.
\<close>

definition settle ::
  "host \<Rightarrow> (string \<Rightarrow> error + jsval) \<Rightarrow> (request \<Rightarrow> jsval \<Rightarrow> error + response) \<Rightarrow> spec
     \<Rightarrow> settled option" where
  "settle h parse transport s =
     (case u_fetch s of
        None \<Rightarrow> None
      | Some t \<Rightarrow>
          (case acquire parse transport s (t_source t) of
             (s1, Inr responseBody) \<Rightarrow> Some (finish h s1 (Fulfilled responseBody) [])
           | (s1, Inl e) \<Rightarrow>
               (case fetchErrorHandler h (catch_this (t_source t) s1) e of
                  (ev, Inr v) \<Rightarrow> Some (finish h s1 (Fulfilled v) [ev])
                | (ev, Inl e') \<Rightarrow> Some (finish h s1 (Rejected e') [ev]))))"

section \<open>Reading a run\<close>

text \<open>The errors the failure channel was called with, in order.\<close>

fun channel_errors :: "event list \<Rightarrow> error list" where
  "channel_errors [] = []"
| "channel_errors (Channel ro e # evs) = e # channel_errors evs"
| "channel_errors (ev # evs) = channel_errors evs"

text \<open>The argument a callback's user continuation was called with, if it was called.\<close>

fun called_with :: "event list \<Rightarrow> jsval option" where
  "called_with [] = None"
| "called_with (Invoked a # evs) = Some a"
| "called_with (ev # evs) = called_with evs"

text \<open>
  A chain \<^verbatim>\<open>.then(f1).then(f2)...\<close> on a spec whose root task resolved with \<open>b\<close>: the
  argument of each continuation.
\<close>

definition chain_args :: "host \<Rightarrow> spec \<Rightarrow> jsval \<Rightarrow> cont list \<Rightarrow> jsval option list" where
  "chain_args h s b fs = map called_with (snd (run_reactions h s b (map UserThen fs)))"

text \<open>The error a must-pass assertion throws against the response of the spec.\<close>

definition must_pass_failure :: "spec \<Rightarrow> runner \<Rightarrow> error option" where
  "must_pass_failure s r =
     (case r of Runner f expectArgs expectPass \<Rightarrow>
        if expectPass then f (u_response s) expectArgs else None)"

text \<open>Property \<open>k\<close> of the request descriptor a call stored, when the call returned.\<close>

definition sent_param :: "error + spec \<Rightarrow> string \<Rightarrow> jsval option" where
  "sent_param r k =
     (case r of
        Inl e \<Rightarrow> None
      | Inr s \<Rightarrow> (case u_request s of None \<Rightarrow> None | Some rq \<Rightarrow> map_of (q_params rq) k))"

text \<open>The asynchronous part, after a call that returned the spec.\<close>

definition settle_call ::
  "host \<Rightarrow> (string \<Rightarrow> error + jsval) \<Rightarrow> (request \<Rightarrow> jsval \<Rightarrow> error + response)
     \<Rightarrow> error + spec \<Rightarrow> settled option" where
  "settle_call h parse transport r =
     (case r of Inl e \<Rightarrow> None | Inr s \<Rightarrow> settle h parse transport s)"

text \<open>A chain of \<^verbatim>\<open>then\<close> calls, and the arguments the callbacks of a run were called with.\<close>

fun then_all :: "error + spec \<Rightarrow> cont list \<Rightarrow> error + spec" where
  "then_all r [] = r"
| "then_all r (f # fs) =
     then_all (case r of Inl e \<Rightarrow> Inl e | Inr s \<Rightarrow> then_m s (Cont f)) fs"

definition settled_args :: "settled option \<Rightarrow> jsval option list" where
  "settled_args r = (case r of None \<Rightarrow> [] | Some st \<Rightarrow> map called_with (s_callback_events st))"

text \<open>Every error the failure channel received during a run, in the order of the log.\<close>

definition settled_errors :: "settled option \<Rightarrow> error list" where
  "settled_errors r =
     (case r of
        None \<Rightarrow> []
      | Some st \<Rightarrow> channel_errors (s_root_events st) @ concat (map channel_errors (s_callback_events st)))"

section \<open>Inputs of the examples\<close>

text \<open>
  \<^verbatim>\<open>JSON.stringify\<close> and the transport's JSON decoding at the one value the examples
  use, \<^verbatim>\<open>{a: 1}\<close>; the theorems hold for every pair of functions.
\<close>

definition text_a1 :: string where
  "text_a1 = [CHR ''{'', CHR 0x22, CHR ''a'', CHR 0x22, CHR '':'', CHR ''1'', CHR ''}'']"

definition stringify_a1 :: "jsval \<Rightarrow> string option" where
  "stringify_a1 v = (if v = JObj [(''a'', JNum 1)] then Some text_a1 else None)"

definition parse_a1 :: "string \<Rightarrow> error + jsval" where
  "parse_a1 t = (if t = text_a1 then Inr (JObj [(''a'', JNum 1)]) else Inl (HostError ''invalid json''))"

definition parse_fails :: "string \<Rightarrow> error + jsval" where
  "parse_fails t = Inl (HostError ''invalid json'')"

text \<open>
  \<^verbatim>\<open>_.merge\<close> at the two calls the examples make, both into the empty defaults
  \<^verbatim>\<open>{}\<close>, where the result has the properties of the source; the theorems hold for
  every function.
\<close>

definition merge_example :: "jsval \<Rightarrow> jsval \<Rightarrow> jsval" where
  "merge_example d opts =
     (if d = JObj [] \<and> (opts = JObj [(''headers'', JObj [])]
                         \<or> opts = JObj [(''request'', JObj [(''timeout'', JNum 10)])])
      then opts else d)"

text \<open>A host with both primitives, and one with none.\<close>

definition jasmine :: host where
  "jasmine = \<lparr>has_fail = True, has_expect = True\<rparr>"

definition bare :: host where
  "bare = \<lparr>has_fail = False, has_expect = False\<rparr>"

text \<open>An empty registry, two assertion handlers and a custom error handler.\<close>

definition no_registry :: "string \<rightharpoonup> handler" where
  "no_registry = Map.empty"

definition passing :: handler where
  "passing r expectArgs = None"

definition failing :: handler where
  "failing r expectArgs = Some (HostError ''expected 404, got 200'')"


text \<open>
  Transports: one that fails, one that serves JSON, one that serves the same payload
  as \<^verbatim>\<open>text/plain\<close>, one that serves text without headers.
\<close>

definition offline :: "request \<Rightarrow> jsval \<Rightarrow> error + response" where
  "offline rq tmo = Inl (HostError ''network unreachable'')"

definition serves_a1 :: "request \<Rightarrow> jsval \<Rightarrow> error + response" where
  "serves_a1 rq tmo =
     Inr \<lparr>r_url = q_url rq, r_status = 200, r_statusText = ''OK'',
          r_headers = headers_set Map.empty ''Content-Type'' ''application/json; charset=utf-8'',
          r_size = 0, r_timeout = 0, r_payload = text_a1, u_body = None\<rparr>"

definition serves_plain :: "request \<Rightarrow> jsval \<Rightarrow> error + response" where
  "serves_plain rq tmo =
     Inr \<lparr>r_url = q_url rq, r_status = 200, r_statusText = ''OK'',
          r_headers = headers_set Map.empty ''Content-Type'' ''text/plain'',
          r_size = 0, r_timeout = 0, r_payload = text_a1, u_body = None\<rparr>"

definition serves_text :: "request \<Rightarrow> jsval \<Rightarrow> error + response" where
  "serves_text rq tmo =
     Inr \<lparr>r_url = q_url rq, r_status = 200, r_statusText = ''OK'',
          r_headers = Map.empty,
          r_size = 0, r_timeout = 0, r_payload = ''hello'', u_body = None\<rparr>"

text \<open>
  Continuations: one returning a promise of a number, one returning its argument, one
  returning nothing, one returning a started spec with a given response body, one
  returning such a spec on which a continuation of its own has left a promise of a
  number pending, one that throws.
\<close>

definition promise_of :: "int \<Rightarrow> cont" where
  "promise_of n b = Returned (Prom (Fulfilled (JNum n)))"

definition echo :: cont where
  "echo b = Returned (Plain b)"

definition nothing :: cont where
  "nothing b = Returned (Plain JUndefined)"

definition spec_with_body :: "jsval \<Rightarrow> cont" where
  "spec_with_body b2 b = Returned (SpecV (Some (Fulfilled b2)) (Plain JUndefined))"

definition spec_pending :: "jsval \<Rightarrow> int \<Rightarrow> cont" where
  "spec_pending b2 n b = Returned (SpecV (Some (Fulfilled b2)) (Prom (Fulfilled (JNum n))))"


section \<open>Verified properties\<close>

subsection \<open>Configuration\<close>

text \<open>
  C9. Write \<open>d\<close> for the defaults \<^verbatim>\<open>setup(opts, replace)\<close> stores: \<open>opts\<close> when
  \<open>replace\<close> is truthy, the merge of the old defaults with \<open>opts\<close> otherwise,
  for any merge function. When \<open>d\<close> has no \<^verbatim>\<open>request\<close> (the read fails or finds
  \<^verbatim>\<open>undefined\<close> or \<^verbatim>\<open>null\<close>), \<^verbatim>\<open>setup\<close> throws a TypeError, with \<open>d\<close> already
  stored. When \<^verbatim>\<open>setup\<close> returns the spec, \<open>d\<close> has a \<^verbatim>\<open>request\<close>, and the per-spec
  timeout is \<^verbatim>\<open>request.timeout\<close> when that is truthy and the module constant
  otherwise, whatever the per-spec timeout was before.
\<close>

theorem setup_requires_request:
  fixes mrg s opts replace
  defines "d \<equiv> (if truthy replace then opts else mrg (u_setupDefaults s) opts)"
  shows "((\<forall>r. get_prop d ''request'' = Inr r \<longrightarrow> r = JUndefined \<or> r = JNull) \<longrightarrow>
            (\<exists>m. setup_m mrg s opts replace = Inl (TypeError m, s\<lparr>u_setupDefaults := d\<rparr>)))
       \<and> (\<forall>s'. setup_m mrg s opts replace = Inr s' \<longrightarrow>
            (\<exists>r t. get_prop d ''request'' = Inr r \<and> r \<noteq> JUndefined \<and> r \<noteq> JNull
               \<and> get_prop r ''timeout'' = Inr t
               \<and> s' = s\<lparr>u_setupDefaults := d, u_timeout := (if truthy t then t else TIMEOUT_DEFAULT)\<rparr>
               \<and> (\<forall>x. setup_m mrg (s\<lparr>u_timeout := x\<rparr>) opts replace = Inr s')))"
proof (intro conjI allI impI)
  assume a: "\<forall>r. get_prop d ''request'' = Inr r \<longrightarrow> r = JUndefined \<or> r = JNull"
  show "\<exists>m. setup_m mrg s opts replace = Inl (TypeError m, s\<lparr>u_setupDefaults := d\<rparr>)"
  proof (cases "get_prop d ''request''")
    case (Inl e)
    then obtain m where "e = TypeError m" by (cases d) auto
    with Inl show ?thesis unfolding d_def by (simp add: setup_m_def)
  next
    case (Inr r)
    with a have "r = JUndefined \<or> r = JNull" by simp
    with Inr show ?thesis unfolding d_def by (auto simp: setup_m_def)
  qed
next
  fix s' assume ok: "setup_m mrg s opts replace = Inr s'"
  then obtain r where r: "get_prop d ''request'' = Inr r"
    unfolding d_def by (auto simp: setup_m_def Let_def split: sum.splits)
  with ok obtain t where t: "get_prop r ''timeout'' = Inr t"
    unfolding d_def by (auto simp: setup_m_def Let_def split: sum.splits)
  from t have nn: "r \<noteq> JUndefined \<and> r \<noteq> JNull" by auto
  from ok r t have s': "s' = s\<lparr>u_setupDefaults := d, u_timeout := (if truthy t then t else TIMEOUT_DEFAULT)\<rparr>"
    unfolding d_def by (auto simp: setup_m_def Let_def split: sum.splits)
  have "\<forall>x. setup_m mrg (s\<lparr>u_timeout := x\<rparr>) opts replace = Inr s'"
    using r t s' unfolding d_def by (auto simp: setup_m_def Let_def split: sum.splits)
  with r t nn s' show "\<exists>r t. get_prop d ''request'' = Inr r \<and> r \<noteq> JUndefined \<and> r \<noteq> JNull
               \<and> get_prop r ''timeout'' = Inr t
               \<and> s' = s\<lparr>u_setupDefaults := d, u_timeout := (if truthy t then t else TIMEOUT_DEFAULT)\<rparr>
               \<and> (\<forall>x. setup_m mrg (s\<lparr>u_timeout := x\<rparr>) opts replace = Inr s')"
    by blast
qed

theorem setup_requires_request_witness:
  "(\<exists>m. setup_m merge_example new_spec (JObj [(''headers'', JObj [])]) JUndefined
       = Inl (TypeError m, new_spec\<lparr>u_setupDefaults := JObj [(''headers'', JObj [])]\<rparr>))
   \<and> setup_m merge_example (new_spec\<lparr>u_timeout := JNum 77\<rparr>)
        (JObj [(''request'', JObj [(''timeout'', JNum 10)])]) JUndefined
       = Inr (new_spec\<lparr>u_setupDefaults := JObj [(''request'', JObj [(''timeout'', JNum 10)])],
                       u_timeout := JNum 10\<rparr>)"
  using setup_requires_request [where mrg = merge_example and s = new_spec
      and opts = "JObj [(''headers'', JObj [])]" and replace = JUndefined]
    setup_requires_request [where mrg = merge_example and s = "new_spec\<lparr>u_timeout := JNum 77\<rparr>"
      and opts = "JObj [(''request'', JObj [(''timeout'', JNum 10)])]" and replace = JUndefined]
  by (auto simp: new_spec_def setup_m_def merge_example_def)

text \<open>
  C10. \<^verbatim>\<open>timeout(t)\<close> with a falsy \<open>t\<close> is the call without argument: it never
  returns the spec, and on defaults that are an object it returns the shared
  \<^verbatim>\<open>request.timeout\<close> when truthy and the per-spec timeout otherwise. With a truthy
  \<open>t\<close> it stores \<open>t\<close> and returns the spec. No call returns a spec whose per-spec
  timeout is 0.
\<close>

theorem timeout_falsy_is_getter:
  "(\<not> truthy t \<longrightarrow>
      timeout s t = timeout s JUndefined \<and> (\<forall>s'. timeout s t \<noteq> Inr (Chained s'))
      \<and> (\<forall>d. u_setupDefaults s = JObj d \<longrightarrow>
            timeout s t = Inr (Got (case map_of d ''request'' of
                Some (JObj r) \<Rightarrow> (case map_of r ''timeout'' of
                    Some v \<Rightarrow> if truthy v then v else u_timeout s
                  | None \<Rightarrow> u_timeout s)
              | _ \<Rightarrow> u_timeout s))))
   \<and> (truthy t \<longrightarrow> timeout s t = Inr (Chained (s\<lparr>u_timeout := t\<rparr>)))
   \<and> (\<forall>s'. timeout s t = Inr (Chained s') \<longrightarrow> u_timeout s' \<noteq> JNum 0)"
proof (intro conjI allI impI)
  assume f: "\<not> truthy t"
  then show "timeout s t = timeout s JUndefined" by (simp add: timeout_def timeout_getter_def)
  from f show "\<And>s'. timeout s t \<noteq> Inr (Chained s')"
    by (auto simp: timeout_def timeout_getter_def split: sum.splits)
  fix d assume "u_setupDefaults s = JObj d"
  with f show "timeout s t = Inr (Got (case map_of d ''request'' of
                Some (JObj r) \<Rightarrow> (case map_of r ''timeout'' of
                    Some v \<Rightarrow> if truthy v then v else u_timeout s
                  | None \<Rightarrow> u_timeout s)
              | _ \<Rightarrow> u_timeout s))"
    by (auto simp: timeout_def timeout_getter_def split: option.splits jsval.splits)
next
  assume "truthy t" then show "timeout s t = Inr (Chained (s\<lparr>u_timeout := t\<rparr>))"
    by (simp add: timeout_def timeout_getter_def)
next
  fix s' assume "timeout s t = Inr (Chained s')"
  then show "u_timeout s' \<noteq> JNum 0"
    by (auto simp: timeout_def timeout_getter_def split: if_splits sum.splits)
qed

theorem timeout_falsy_is_getter_witness:
  "\<not> truthy (JNum 0) \<and> timeout (new_spec\<lparr>u_timeout := JNum 300\<rparr>) (JNum 0) = Inr (Got (JNum 300))
   \<and> truthy (JNum 25) \<and> timeout new_spec (JNum 25) = Inr (Chained (new_spec\<lparr>u_timeout := JNum 25\<rparr>))"
  using timeout_falsy_is_getter [of "JNum 0" "new_spec\<lparr>u_timeout := JNum 300\<rparr>"]
        timeout_falsy_is_getter [of "JNum 25" new_spec]
  by (auto simp: new_spec_def timeout_def timeout_getter_def)

subsection \<open>The request descriptor\<close>

lemma map_of_set_prop: "map_of (set_prop kvs k v) = (map_of kvs)(k \<mapsto> v)"
  by (induction kvs) (auto simp: fun_eq_iff)

lemma map_of_fold_set_prop:
  "map_of (fold (\<lambda>(k, v) acc. set_prop acc k v) xs t) = map_of t ++ map_of (rev xs)"
proof (induction xs arbitrary: t)
  case Nil
  then show ?case by simp
next
  case (Cons x xs)
  obtain k v where x: "x = (k, v)" by (cases x)
  show ?case
    by (simp add: x Cons.IH map_of_set_prop map_add_def fun_eq_iff split: option.splits)
qed

lemma distinct_own_entries: "distinct (map fst (own_entries kvs))"
proof (induction kvs)
  case Nil
  then show ?case by simp
next
  case (Cons a kvs)
  obtain k v where a: "a = (k, v)" by (cases a)
  have "distinct (map fst (filter (\<lambda>(k', v'). k' \<noteq> k) (own_entries kvs)))"
    using Cons.IH by (simp add: distinct_map_filter)
  moreover have "k \<notin> fst ` set (filter (\<lambda>(k', v'). k' \<noteq> k) (own_entries kvs))"
    by auto
  ultimately show ?case by (simp add: a)
qed

lemma map_of_filter_neq:
  "map_of (filter (\<lambda>(k', v'). k' \<noteq> k) xs) = (map_of xs)(k := None)"
  by (induction xs) (auto simp: fun_eq_iff)

lemma map_of_own_entries: "map_of (own_entries kvs) = map_of kvs"
  by (induction kvs) (auto simp: map_of_filter_neq fun_eq_iff)

lemma map_of_rev_distinct: "distinct (map fst xs) \<Longrightarrow> map_of (rev xs) = map_of xs"
  by (induction xs) (auto simp: fun_eq_iff map_add_def image_iff split: option.splits dest: map_of_SomeD)

lemma object_assign_obj:
  "map_of (object_assign t (JObj kvs)) k =
     (case map_of kvs k of Some v \<Rightarrow> Some v | None \<Rightarrow> map_of t k)"
  by (simp add: object_assign_def map_of_fold_set_prop map_of_rev_distinct distinct_own_entries
      map_of_own_entries map_add_def split: option.splits)

lemma object_assign_undefined: "object_assign t JUndefined = t"
  by (simp add: object_assign_def)


lemma encode_body_obj:
  "\<exists>p1. encode_body stringify (JObj kvs) = JObj p1
     \<and> map_of p1 ''method'' = map_of kvs ''method''"
  by (auto simp: encode_body_def map_of_set_prop split: option.splits)

lemma postParams_method:
  "map_of (postParams stringify m p) ''method'' = Some (JStr m)"
  by (simp add: postParams_def)

text \<open>
  C4, as the code has it. A body-carrying verb called with an object \<open>params\<close>, on
  a spec whose shared defaults hold a \<^verbatim>\<open>request\<close> object or none, returns, and every
  property of the request is read from the caller's \<open>params\<close> (after the body was
  encoded) first, from the method-implied \<open>postParams\<close> second, from the shared
  defaults last. So the method is the caller's \<^verbatim>\<open>method\<close> when \<open>params\<close> has one and
  the verb's otherwise.
\<close>

theorem requestWithBody_precedence:
  assumes dflt: "get_prop (u_setupDefaults s) ''request'' = Inr dflt"
      and dk: "dflt = JUndefined \<and> dk = [] \<or> dflt = JObj dk"
  shows "\<exists>s' rq p1. requestWithBody stringify s m url (JObj kvs) = Inr s'
          \<and> u_request s' = Some rq \<and> q_url rq = url
          \<and> encode_body stringify (JObj kvs) = JObj p1
          \<and> (\<forall>k. map_of (q_params rq) k =
                (case map_of p1 k of
                   Some v \<Rightarrow> Some v
                 | None \<Rightarrow>
                     (case map_of (postParams stringify m (JObj p1)) k of
                        Some v \<Rightarrow> Some v
                      | None \<Rightarrow> map_of dk k)))
          \<and> map_of (q_params rq) ''method'' =
                (case map_of kvs ''method'' of Some v \<Rightarrow> Some v | None \<Rightarrow> Some (JStr m))"
proof -
  obtain p1 where p1: "encode_body stringify (JObj kvs) = JObj p1"
    and pm: "map_of p1 ''method'' = map_of kvs ''method''"
    using encode_body_obj by blast
  define pp where "pp = postParams stringify m (JObj p1)"
  define fp where "fp = object_assign (object_assign [] dflt) (JObj (object_assign pp (JObj p1)))"
  have tg: "\<exists>tmo. timeout_getter s = Inr tmo"
    using dflt dk by (auto simp: timeout_getter_def)
  then obtain tmo where tmo: "timeout_getter s = Inr tmo" ..
  have run: "requestWithBody stringify s m url (JObj kvs) =
      Inr (s\<lparr>u_request := Some \<lparr>q_url = url, q_params = fp\<rparr>,
              u_fetch := Some \<lparr>t_source = Network \<lparr>q_url = url, q_params = fp\<rparr> tmo, t_reactions = []\<rparr>\<rparr>)"
    by (simp add: requestWithBody_def Let_def p1 fetch_def fetchParams_def dflt tmo or_empty_def
        pp_def fp_def)
  have d0: "map_of (object_assign [] dflt) k = map_of dk k" for k
    using dk by (auto simp: object_assign_undefined object_assign_obj split: option.splits)
  have look: "map_of fp k =
      (case map_of p1 k of Some v \<Rightarrow> Some v
       | None \<Rightarrow> (case map_of pp k of Some v \<Rightarrow> Some v | None \<Rightarrow> map_of dk k))" for k
    by (simp add: fp_def object_assign_obj d0 split: option.splits)
  have meth: "map_of fp ''method'' =
      (case map_of kvs ''method'' of Some v \<Rightarrow> Some v | None \<Rightarrow> Some (JStr m))"
    by (simp add: look pm pp_def postParams_method split: option.splits)
  show ?thesis
    using run p1 look meth unfolding pp_def by simp
qed

theorem requestWithBody_precedence_witness:
  "sent_param (post stringify_a1 new_spec ''/items'' (JObj [(''a'', JNum 1)])) ''method'' = Some (JStr ''POST'')
   \<and> sent_param (post stringify_a1 new_spec ''/items'' (JObj [(''a'', JNum 1)])) ''body'' = Some (JStr text_a1)"
  using requestWithBody_precedence [of new_spec JUndefined "[]" stringify_a1 "''POST''" "''/items''" "[(''a'', JNum 1)]"]
  by (auto simp: sent_param_def post_def new_spec_def encode_body_def postParams_def
      prop_or_undefined_def stringify_a1_def text_or_undefined_def)

text \<open>
  C4 as stated fails: \<^verbatim>\<open>post(url, {method: 'GET', body: 'x'})\<close> sends the method
  \<^verbatim>\<open>GET\<close>.
\<close>

theorem post_method_displaced:
  "sent_param (post stringify_a1 new_spec ''/items''
       (JObj [(''method'', JStr ''GET''), (''body'', JStr ''x'')])) ''method'' = Some (JStr ''GET'')"
  by (simp add: sent_param_def post_def requestWithBody_def encode_body_def postParams_def
      prop_or_undefined_def or_empty_def object_assign_def fetch_def fetchParams_def
      timeout_getter_def new_spec_def)

subsection \<open>Registering assertions\<close>

lemma getExpectRunner_known:
  "expectName = Inline f \<or> (\<exists>n. expectName = Named n \<and> reg n = Some f) \<Longrightarrow>
     getExpectRunner reg s expectName expectArgs expectPass
       = Inr (s\<lparr>u_expects := u_expects s @ [Runner f expectArgs expectPass]\<rparr>)"
  by (auto simp: getExpectRunner_def addExpect_def)

text \<open>
  C1, as the code has it. On every spec, started or not, \<^verbatim>\<open>expect\<close> and
  \<^verbatim>\<open>expectNot\<close> with an inline function or a name the registry knows append the
  assertion to the pending list and return the spec; the root task is not looked at.
  The one error at registration time is the descriptive one for a name the registry
  does not know.
\<close>

theorem expect_registers_without_fetch:
  "(expectName = Inline f \<or> (\<exists>n. expectName = Named n \<and> reg n = Some f) \<longrightarrow>
      expect reg s expectName expectArgs
        = Inr (s\<lparr>u_expects := u_expects s @ [Runner f expectArgs True]\<rparr>)
      \<and> expectNot reg s expectName expectArgs
        = Inr (s\<lparr>u_expects := u_expects s @ [Runner f expectArgs False]\<rparr>))
   \<and> (reg n = None \<longrightarrow>
      expect reg s (Named n) expectArgs = Inl (not_defined n)
      \<and> expectNot reg s (Named n) expectArgs = Inl (not_defined n))"
  by (auto simp: expect_def expectNot_def getExpectRunner_known) (simp_all add: getExpectRunner_def)

theorem expect_registers_without_fetch_witness:
  "u_fetch new_spec = None
   \<and> expect no_registry new_spec (Inline passing) [JNum 200]
        = Inr (new_spec\<lparr>u_expects := [Runner passing [JNum 200] True]\<rparr>)
   \<and> expectNot no_registry new_spec (Named ''status'') [JNum 200]
        = Inl (not_defined ''status'')"
  using expect_registers_without_fetch [of "Inline passing" passing no_registry new_spec "[JNum 200]" "''status''"]
  by (simp add: new_spec_def no_registry_def)

text \<open>
  C1 as stated fails: on a fresh spec, with no response-resolution call made,
  \<^verbatim>\<open>expect(fn)\<close> returns the spec with the assertion queued.
\<close>

theorem expect_before_fetch_is_queued:
  "u_fetch new_spec = None
   \<and> expect no_registry new_spec (Inline passing) []
        = Inr (new_spec\<lparr>u_expects := [Runner passing [] True]\<rparr>)"
  by (simp add: expect_def getExpectRunner_def addExpect_def new_spec_def)

subsection \<open>Running assertions\<close>

text \<open>
  When the handler of an assertion throws \<open>e\<close>, the closure registered by
  \<^verbatim>\<open>expect\<close> calls the failure channel exactly once, with \<open>e\<close>; the closure
  registered by \<^verbatim>\<open>expectNot\<close> does not call it and does not throw, whatever \<open>e\<close> is.
\<close>

lemma runner_calls_channel_once:
  assumes "f (u_response s) expectArgs = Some e"
  shows "channel_errors (fst (run_runner h s (Runner f expectArgs True))) = [e]
       \<and> channel_errors (fst (run_runner h s (Runner f expectArgs False))) = []
       \<and> snd (run_runner h s (Runner f expectArgs False)) = None"
  using assms
  by (auto simp: run_runner_def fetchErrorHandler_def split: option.splits sum.splits prod.splits)

text \<open>
  Over the whole loop, when the failure channel returns for every error (a host
  primitive, or a custom handler that returns): one error per must-pass assertion
  that throws, in registration order, and the loop runs to its end.
\<close>

lemma channel_errors_append:
  "channel_errors (xs @ ys) = channel_errors xs @ channel_errors ys"
  by (induction xs rule: channel_errors.induct) auto

lemma expects_loop_reports:
  assumes "\<And>e. \<exists>v. snd (fetchErrorHandler h (Some s) e) = Inr v"
  shows "channel_errors (fst (expects_loop h s rs)) = List.map_filter (must_pass_failure s) rs
       \<and> snd (expects_loop h s rs) = None"
proof (induction rs)
  case Nil
  then show ?case by (simp add: map_filter_simps)
next
  case (Cons r rs)
  obtain f a p where r: "r = Runner f a p" by (cases r)
  have ev: "\<exists>ro. fst (fetchErrorHandler h (Some s) e) = Channel ro e" for e
    by (auto simp: fetchErrorHandler_def split: option.splits)
  have one: "snd (run_runner h s r) = None
      \<and> channel_errors (fst (run_runner h s r))
          = (case must_pass_failure s r of None \<Rightarrow> [] | Some e \<Rightarrow> [e])"
  proof (cases "f (u_response s) a")
    case None
    then show ?thesis by (simp add: r run_runner_def must_pass_failure_def)
  next
    case (Some e)
    obtain v where v: "snd (fetchErrorHandler h (Some s) e) = Inr v" using assms by blast
    obtain ro where ro: "fst (fetchErrorHandler h (Some s) e) = Channel ro e" using ev by blast
    have "fetchErrorHandler h (Some s) e = (Channel ro e, Inr v)"
      using v ro by (cases "fetchErrorHandler h (Some s) e") simp
    then show ?thesis by (simp add: r run_runner_def must_pass_failure_def Some)
  qed
  show ?case
    using one Cons.IH
    by (cases "run_runner h s r"; cases "expects_loop h s rs")
       (auto simp: channel_errors_append map_filter_simps split: option.splits)
qed

text \<open>
  C7, as the code has it. The closure of a must-pass assertion whose handler throws
  \<open>e\<close> calls the failure channel exactly once, with \<open>e\<close>; the closure of a
  must-fail assertion never calls it and never throws. When the failure channel
  returns for every error, the callback that runs the assertion loop hands the
  channel one error per must-pass assertion that throws, and nothing else.
\<close>

theorem assertion_failure_routing:
  "(f (u_response s) expectArgs = Some e \<longrightarrow>
      channel_errors (fst (run_runner h s (Runner f expectArgs True))) = [e]
      \<and> channel_errors (fst (run_runner h s (Runner f expectArgs False))) = []
      \<and> snd (run_runner h s (Runner f expectArgs False)) = None)
   \<and> ((\<forall>e'. \<exists>r. snd (fetchErrorHandler h (Some s) e') = Inr r)
        \<and> (u_lastResult s = Plain x \<or> u_lastResult s = Prom (Fulfilled v)) \<longrightarrow>
      channel_errors (snd (run_reaction h s b ExpectsLoop))
        = List.map_filter (must_pass_failure s) (u_expects s))"
proof -
  have closure: "f (u_response s) expectArgs = Some e \<longrightarrow>
      channel_errors (fst (run_runner h s (Runner f expectArgs True))) = [e]
      \<and> channel_errors (fst (run_runner h s (Runner f expectArgs False))) = []
      \<and> snd (run_runner h s (Runner f expectArgs False)) = None"
    using runner_calls_channel_once [of f s expectArgs e h] by blast
  have callback: "channel_errors (snd (run_reaction h s b ExpectsLoop))
        = List.map_filter (must_pass_failure s) (u_expects s)"
    if a: "(\<forall>e'. \<exists>r. snd (fetchErrorHandler h (Some s) e') = Inr r)
        \<and> (u_lastResult s = Plain x \<or> u_lastResult s = Prom (Fulfilled v))"
  proof -
    from a have loop: "channel_errors (fst (expects_loop h s (u_expects s)))
          = List.map_filter (must_pass_failure s) (u_expects s)"
      and ret: "snd (expects_loop h s (u_expects s)) = None"
      using expects_loop_reports [of h s "u_expects s"] by auto
    from a consider "u_lastResult s = Plain x" | "u_lastResult s = Prom (Fulfilled v)" by blast
    then show ?thesis
    proof cases
      case 1
      then show ?thesis
        by (simp add: run_reaction_def reaction_fn_def reaction_events_def ret loop)
    next
      case 2
      then show ?thesis
        by (simp add: run_reaction_def reaction_fn_def reaction_events_def ret loop)
    qed
  qed
  show ?thesis
    using closure callback by blast
qed

theorem assertion_failure_routing_witness:
  "failing (u_response new_spec) [JNum 404] = Some (HostError ''expected 404, got 200'')
   \<and> channel_errors (fst (run_runner jasmine new_spec (Runner failing [JNum 404] True)))
        = [HostError ''expected 404, got 200'']
   \<and> channel_errors (fst (run_runner jasmine new_spec (Runner failing [JNum 404] False))) = []
   \<and> (\<forall>e'. \<exists>r. snd (fetchErrorHandler jasmine
          (Some (addExpect new_spec (Runner failing [JNum 404] True))) e') = Inr r)
   \<and> u_lastResult (addExpect new_spec (Runner failing [JNum 404] True)) = Plain JUndefined
   \<and> channel_errors (snd (run_reaction jasmine (addExpect new_spec (Runner failing [JNum 404] True))
          (JStr ''body'') ExpectsLoop))
        = [HostError ''expected 404, got 200'']"
  using assertion_failure_routing [of failing new_spec "[JNum 404]" "HostError ''expected 404, got 200''"
      jasmine JUndefined JNull "JStr ''body''"]
    assertion_failure_routing [of failing "addExpect new_spec (Runner failing [JNum 404] True)"
      "[JNum 404]" "HostError ''expected 404, got 200''" jasmine JUndefined JNull "JStr ''body''"]
  by (simp add: failing_def jasmine_def new_spec_def addExpect_def must_pass_failure_def
      map_filter_simps fetchErrorHandler_def)

text \<open>
  C7 as stated fails when the failure channel itself throws the error again (no
  custom handler, no host primitive): the error leaves the loop, rejects the promise
  of the callback, and the \<^verbatim>\<open>.catch\<close> of \<^verbatim>\<open>then\<close> hands it to the failure channel a
  second time.
\<close>

theorem rethrown_failure_reported_twice:
  "settled_errors (settle_call bare parse_a1 offline
       (fromJSON stringify_a1 (addExpect new_spec (Runner failing [JNum 404] True))
          (JObj [(''a'', JNum 1)])))
     = [HostError ''expected 404, got 200'', HostError ''expected 404, got 200'']"
  by (simp add: fromJSON_def stringify_a1_def Let_def addExpect_def
      settle_call_def settle_def acquire_def parse_a1_def resolved_def runExpects_def register_def
      finish_def reactions_of_def run_reaction_def reaction_fn_def reaction_events_def
      run_runner_def fetchErrorHandler_def failing_def bare_def new_spec_def settled_errors_def)

subsection \<open>What running the callbacks leaves alone\<close>

text \<open>
  A callback of the root task changes \<^verbatim>\<open>_lastResult\<close> and nothing else, and every
  assertion handler is called with the response the spec holds.
\<close>

lemma run_reaction_frame:
  "\<exists>l. fst (run_reaction h s b r) = s\<lparr>u_lastResult := l\<rparr>"
  by (auto simp: run_reaction_def Let_def split: prod.splits)

lemma run_reactions_frame:
  "\<exists>l. fst (run_reactions h s b rs) = s\<lparr>u_lastResult := l\<rparr>"
proof (induction rs arbitrary: s)
  case Nil
  have "s = s\<lparr>u_lastResult := u_lastResult s\<rparr>" by simp
  then show ?case by (metis fst_conv run_reactions.simps(1))
next
  case (Cons r rs)
  obtain l1 where one: "fst (run_reaction h s b r) = s\<lparr>u_lastResult := l1\<rparr>"
    using run_reaction_frame by blast
  obtain l2 where rest: "fst (run_reactions h (s\<lparr>u_lastResult := l1\<rparr>) b rs) = s\<lparr>u_lastResult := l1, u_lastResult := l2\<rparr>"
    using Cons.IH by blast
  show ?case
    using one rest by (auto split: prod.splits)
qed

lemma run_runner_checked:
  "Checked r \<in> set (fst (run_runner h s x)) \<Longrightarrow> r = u_response s"
  by (auto simp: run_runner_def fetchErrorHandler_def split: runner.splits option.splits if_splits sum.splits prod.splits)

lemma expects_loop_checked:
  "Checked r \<in> set (fst (expects_loop h s xs)) \<Longrightarrow> r = u_response s"
proof (induction xs)
  case Nil
  then show ?case by simp
next
  case (Cons x xs)
  obtain a t where rr: "run_runner h s x = (a, t)" by (cases "run_runner h s x")
  obtain a' t' where el: "expects_loop h s xs = (a', t')" by (cases "expects_loop h s xs")
  have first: "Checked r \<in> set a \<Longrightarrow> r = u_response s"
    using run_runner_checked [of r h s x] rr by simp
  have rest: "Checked r \<in> set a' \<Longrightarrow> r = u_response s"
    using Cons.IH el by simp
  from Cons.prems rr el have "Checked r \<in> set a \<or> Checked r \<in> set a'"
    by (auto split: option.splits)
  with first rest show ?case by blast
qed

lemma run_reaction_checked:
  "Checked r \<in> set (snd (run_reaction h s b x)) \<Longrightarrow> r = u_response s"
  by (auto simp: run_reaction_def Let_def reaction_events_def fetchErrorHandler_def
      split: prod.splits option.splits reaction.splits if_splits dest: expects_loop_checked)

lemma run_reactions_checked:
  "evs \<in> set (snd (run_reactions h s b xs)) \<Longrightarrow> Checked r \<in> set evs \<Longrightarrow> r = u_response s"
proof (induction xs arbitrary: s)
  case Nil
  then show ?case by simp
next
  case (Cons x xs)
  obtain l1 where one: "fst (run_reaction h s b x) = s\<lparr>u_lastResult := l1\<rparr>"
    using run_reaction_frame by blast
  show ?case
  proof (cases "evs = snd (run_reaction h s b x)")
    case True
    with Cons.prems(2) show ?thesis using run_reaction_checked by blast
  next
    case False
    with Cons.prems(1) one
    have "evs \<in> set (snd (run_reactions h (s\<lparr>u_lastResult := l1\<rparr>) b xs))"
      by (auto split: prod.splits)
    from Cons.IH [OF this Cons.prems(2)] show ?thesis by simp
  qed
qed

lemma settle_fulfilled:
  assumes "u_fetch s = Some t"
      and "acquire parse transport s (t_source t) = (s1, Inr body)"
  shows "settle h parse transport s = Some (finish h s1 (Fulfilled body) [])"
  using assms by (simp add: settle_def)

lemma finish_fulfilled:
  "\<exists>l evs. finish h s (Fulfilled b) ev0
     = \<lparr>s_final = s\<lparr>u_lastResult := l\<rparr>, s_root = Fulfilled b, s_root_events = ev0,
         s_callback_events = evs\<rparr>
     \<and> evs = snd (run_reactions h s b (reactions_of s))"
proof -
  obtain l where "fst (run_reactions h s b (reactions_of s)) = s\<lparr>u_lastResult := l\<rparr>"
    using run_reactions_frame by blast
  then show ?thesis
    by (cases "run_reactions h s b (reactions_of s)") (auto simp: finish_def)
qed

subsection \<open>The synthetic response\<close>

text \<open>
  C5. Let \<open>v\<close> be a value \<^verbatim>\<open>JSON.stringify\<close> turns into a text that decodes back to
  \<open>v\<close>. Then \<^verbatim>\<open>fromJSON(v)\<close> returns, its root task fulfils with \<open>v\<close> without a
  call of the failure channel, and the response snapshot has status 200, the header
  \<^verbatim>\<open>Content-Type: application/json\<close> and the body \<open>v\<close>. The transport is not
  consulted: the run is the same for every transport.
\<close>

theorem fromJSON_snapshot:
  assumes str: "stringify v = Some jsonString" and rt: "parse jsonString = Inr v"
  shows "\<exists>s1 st r. fromJSON stringify s v = Inr s1
          \<and> settle h parse transport s1 = Some st
          \<and> s_root st = Fulfilled v \<and> s_root_events st = []
          \<and> u_response (s_final st) = Some r
          \<and> r_status r = 200
          \<and> r_headers r ''Content-Type'' = Some ''application/json''
          \<and> declares_json r
          \<and> u_body r = Some v
          \<and> (\<forall>transport'. settle h parse transport' s1 = Some st)"
proof -
  define resp where "resp = \<lparr>r_url = ''/'', r_status = 200, r_statusText = ''OK'',
      r_headers = headers_set Map.empty ''Content-Type'' ''application/json'',
      r_size = length jsonString, r_timeout = 0, r_payload = jsonString, u_body = None\<rparr>"
  define s1 where "s1 = s\<lparr>u_response := Some resp,
      u_fetch := Some \<lparr>t_source = Synthetic resp, t_reactions = []\<rparr>\<rparr>"
  define s2 where "s2 = s1\<lparr>u_response := Some (resp\<lparr>u_body := Some v\<rparr>),
      u_fetch := Some \<lparr>t_source = Synthetic resp, t_reactions = [ExpectsLoop]\<rparr>\<rparr>"
  have f: "fromJSON stringify s v = Inr s1"
    by (simp add: fromJSON_def str Let_def s1_def resp_def)
  have acq: "acquire parse tr s1 (Synthetic resp) = (s2, Inr v)" for tr
    by (simp add: acquire_def resolved_def runExpects_def register_def rt s1_def s2_def resp_def)
  have st: "settle h parse tr s1 = Some (finish h s2 (Fulfilled v) [])" for tr
    using acq by (simp add: settle_def s1_def)
  obtain l evs where fin: "finish h s2 (Fulfilled v) []
      = \<lparr>s_final = s2\<lparr>u_lastResult := l\<rparr>, s_root = Fulfilled v, s_root_events = [],
          s_callback_events = evs\<rparr>"
    using finish_fulfilled by blast
  have "u_response (s2\<lparr>u_lastResult := l\<rparr>) = Some (resp\<lparr>u_body := Some v\<rparr>)"
    by (simp add: s2_def)
  moreover have "r_status (resp\<lparr>u_body := Some v\<rparr>) = 200"
    and "r_headers (resp\<lparr>u_body := Some v\<rparr>) ''Content-Type'' = Some ''application/json''"
    and "u_body (resp\<lparr>u_body := Some v\<rparr>) = Some v"
    and "declares_json (resp\<lparr>u_body := Some v\<rparr>)"
    by (simp_all add: resp_def headers_set_def declares_json_def headers_has_def headers_get_def indexOf_def)
  ultimately show ?thesis
    using f st fin by auto
qed

theorem fromJSON_snapshot_witness:
  "stringify_a1 (JObj [(''a'', JNum 1)]) = Some text_a1
   \<and> parse_a1 text_a1 = Inr (JObj [(''a'', JNum 1)])
   \<and> (\<exists>s1 st r. fromJSON stringify_a1 new_spec (JObj [(''a'', JNum 1)]) = Inr s1
          \<and> settle jasmine parse_a1 offline s1 = Some st
          \<and> u_response (s_final st) = Some r
          \<and> r_status r = 200 \<and> u_body r = Some (JObj [(''a'', JNum 1)]))"
proof -
  have a: "stringify_a1 (JObj [(''a'', JNum 1)]) = Some text_a1" by (simp add: stringify_a1_def)
  have b: "parse_a1 text_a1 = Inr (JObj [(''a'', JNum 1)])" by (simp add: parse_a1_def)
  show ?thesis
    using a b fromJSON_snapshot [where stringify = stringify_a1 and parse = parse_a1
        and v = "JObj [(''a'', JNum 1)]" and jsonString = text_a1 and s = new_spec and h = jasmine
        and transport = offline]
    by blast
qed

subsection \<open>The network response\<close>

text \<open>
  The content-type test holds exactly when the header is present and its value
  contains \<^verbatim>\<open>json\<close>.
\<close>

lemma occurs_Cons:
  "(\<exists>pre post. c # cs = pre @ p @ post)
     \<longleftrightarrow> take (length p) (c # cs) = p \<or> (\<exists>pre post. cs = pre @ p @ post)"
proof
  assume "\<exists>pre post. c # cs = pre @ p @ post"
  then obtain pre post where e: "c # cs = pre @ p @ post" by blast
  show "take (length p) (c # cs) = p \<or> (\<exists>pre post. cs = pre @ p @ post)"
  proof (cases pre)
    case Nil
    with e show ?thesis by simp
  next
    case (Cons a pre')
    with e have "cs = pre' @ p @ post" by simp
    then show ?thesis by blast
  qed
next
  assume a: "take (length p) (c # cs) = p \<or> (\<exists>pre post. cs = pre @ p @ post)"
  then show "\<exists>pre post. c # cs = pre @ p @ post"
  proof
    assume "take (length p) (c # cs) = p"
    then have "c # cs = [] @ p @ drop (length p) (c # cs)"
      by (metis append_Nil append_take_drop_id)
    then show ?thesis by blast
  next
    assume "\<exists>pre post. cs = pre @ p @ post"
    then obtain pre post where "cs = pre @ p @ post" by blast
    then have "c # cs = (c # pre) @ p @ post" by simp
    then show ?thesis by blast
  qed
qed

lemma indexOf_from_found:
  "0 \<le> i \<Longrightarrow> (indexOf_from i cs p \<noteq> - 1) \<longleftrightarrow> (\<exists>pre post. cs = pre @ p @ post)"
proof (induction cs arbitrary: i)
  case Nil
  then show ?case by auto
next
  case (Cons c cs)
  have "0 \<le> i + 1" using Cons.prems by simp
  from Cons.IH [OF this] Cons.prems show ?case
    by (simp only: indexOf_from.simps occurs_Cons [of c cs p] split: if_splits) auto
qed

lemma declares_json_iff:
  "declares_json resp \<longleftrightarrow>
     (\<exists>ct pre post. r_headers resp ''Content-Type'' = Some ct \<and> ct = pre @ ''json'' @ post)"
proof -
  have n: "NOT x \<noteq> 0 \<longleftrightarrow> x \<noteq> - 1" for x :: int
    by (simp add: not_int_def)
  show ?thesis
    using indexOf_from_found [of 0 _ "''json''"]
    by (auto simp: declares_json_def headers_has_def headers_get_def indexOf_def n split: option.splits)
qed

text \<open>
  The run of a network fetch whose transport answers, by the test the code makes.
\<close>

lemma settle_network_decoded:
  assumes task: "u_fetch s = Some t" "t_source t = Network rq tmo"
      and resp: "transport rq tmo = Inr resp"
      and json: "declares_json resp \<longrightarrow> parse (r_payload resp) = Inr v"
  shows "\<exists>st. settle h parse transport s = Some st
          \<and> s_root st = Fulfilled (if declares_json resp then v else JStr (r_payload resp))
          \<and> u_response (s_final st)
                = Some (resp\<lparr>u_body := Some (if declares_json resp then v else JStr (r_payload resp))\<rparr>)
          \<and> (\<forall>evs \<in> set (s_callback_events st). \<forall>r. Checked r \<in> set evs \<longrightarrow>
                r = Some (resp\<lparr>u_body := Some (if declares_json resp then v else JStr (r_payload resp))\<rparr>))
          \<and> (r_headers resp ''Content-Type'' = None \<longrightarrow> \<not> declares_json resp)"
proof -
  define body where "body = (if declares_json resp then v else JStr (r_payload resp))"
  define s2 where "s2 = s\<lparr>u_response := Some (resp\<lparr>u_body := Some body\<rparr>),
      u_fetch := Some (t\<lparr>t_reactions := t_reactions t @ [ExpectsLoop]\<rparr>)\<rparr>"
  have dec: "decode parse resp = Inr body"
    using json by (simp add: decode_def body_def)
  have acq: "acquire parse transport s (t_source t) = (s2, Inr body)"
    by (simp add: acquire_def task resp dec resolved_def runExpects_def register_def s2_def)
  have st: "settle h parse transport s = Some (finish h s2 (Fulfilled body) [])"
    using settle_fulfilled [OF task(1) acq] .
  obtain l evs where fin: "finish h s2 (Fulfilled body) []
      = \<lparr>s_final = s2\<lparr>u_lastResult := l\<rparr>, s_root = Fulfilled body, s_root_events = [],
          s_callback_events = evs\<rparr>"
    and evs: "evs = snd (run_reactions h s2 body (reactions_of s2))"
    using finish_fulfilled by blast
  have chk: "\<forall>ev \<in> set evs. \<forall>r. Checked r \<in> set ev \<longrightarrow> r = Some (resp\<lparr>u_body := Some body\<rparr>)"
  proof (intro ballI allI impI)
    fix ev r assume "ev \<in> set evs" "Checked r \<in> set ev"
    then have "r = u_response s2" using run_reactions_checked evs by blast
    then show "r = Some (resp\<lparr>u_body := Some body\<rparr>)" by (simp add: s2_def)
  qed
  have none: "r_headers resp ''Content-Type'' = None \<longrightarrow> \<not> declares_json resp"
    by (simp add: declares_json_def headers_has_def headers_get_def)
  have "u_response (s2\<lparr>u_lastResult := l\<rparr>) = Some (resp\<lparr>u_body := Some body\<rparr>)"
    by (simp add: s2_def)
  with st fin chk none show ?thesis
    unfolding body_def by simp
qed

text \<open>
  C6. A network fetch whose transport answers with a response. When the response
  has a \<^verbatim>\<open>Content-Type\<close> header whose value contains \<^verbatim>\<open>json\<close> and the payload decodes
  to \<open>v\<close>, the root task fulfils with \<open>v\<close> and the snapshot's body is \<open>v\<close>. When
  the response has no \<^verbatim>\<open>Content-Type\<close> header, or one whose value does not contain
  \<^verbatim>\<open>json\<close>, they are the payload text, undecoded. In both cases every assertion
  handler that runs is given the snapshot with this body already stored.
\<close>

theorem fetch_body_by_content_type:
  assumes task: "u_fetch s = Some t" "t_source t = Network rq tmo"
      and resp: "transport rq tmo = Inr resp"
  shows "(\<forall>pre post v.
            r_headers resp ''Content-Type'' = Some (pre @ ''json'' @ post)
            \<and> parse (r_payload resp) = Inr v \<longrightarrow>
            (\<exists>st. settle h parse transport s = Some st
               \<and> s_root st = Fulfilled v
               \<and> u_response (s_final st) = Some (resp\<lparr>u_body := Some v\<rparr>)
               \<and> (\<forall>evs \<in> set (s_callback_events st). \<forall>r. Checked r \<in> set evs \<longrightarrow>
                     r = Some (resp\<lparr>u_body := Some v\<rparr>))))
       \<and> (r_headers resp ''Content-Type'' = None
            \<or> (\<exists>ct. r_headers resp ''Content-Type'' = Some ct
                  \<and> (\<forall>pre post. ct \<noteq> pre @ ''json'' @ post)) \<longrightarrow>
            (\<exists>st. settle h parse transport s = Some st
               \<and> s_root st = Fulfilled (JStr (r_payload resp))
               \<and> u_response (s_final st) = Some (resp\<lparr>u_body := Some (JStr (r_payload resp))\<rparr>)
               \<and> (\<forall>evs \<in> set (s_callback_events st). \<forall>r. Checked r \<in> set evs \<longrightarrow>
                     r = Some (resp\<lparr>u_body := Some (JStr (r_payload resp))\<rparr>))))"
proof (intro conjI allI impI)
  fix pre post v
  assume a: "r_headers resp ''Content-Type'' = Some (pre @ ''json'' @ post)
      \<and> parse (r_payload resp) = Inr v"
  then have dj: "declares_json resp" by (auto simp: declares_json_iff)
  with a have "declares_json resp \<longrightarrow> parse (r_payload resp) = Inr v" by simp
  with settle_network_decoded [where s = s and t = t and rq = rq and tmo = tmo
      and transport = transport and resp = resp and parse = parse and h = h and v = v] task resp dj
  show "\<exists>st. settle h parse transport s = Some st
               \<and> s_root st = Fulfilled v
               \<and> u_response (s_final st) = Some (resp\<lparr>u_body := Some v\<rparr>)
               \<and> (\<forall>evs \<in> set (s_callback_events st). \<forall>r. Checked r \<in> set evs \<longrightarrow>
                     r = Some (resp\<lparr>u_body := Some v\<rparr>))"
    by auto
next
  assume a: "r_headers resp ''Content-Type'' = None
            \<or> (\<exists>ct. r_headers resp ''Content-Type'' = Some ct
                  \<and> (\<forall>pre post. ct \<noteq> pre @ ''json'' @ post))"
  then have dj: "\<not> declares_json resp" by (auto simp: declares_json_iff)
  then have "declares_json resp \<longrightarrow> parse (r_payload resp) = Inr JNull" by simp
  with settle_network_decoded [where s = s and t = t and rq = rq and tmo = tmo
      and transport = transport and resp = resp and parse = parse and h = h and v = JNull] task resp dj
  show "\<exists>st. settle h parse transport s = Some st
               \<and> s_root st = Fulfilled (JStr (r_payload resp))
               \<and> u_response (s_final st) = Some (resp\<lparr>u_body := Some (JStr (r_payload resp))\<rparr>)
               \<and> (\<forall>evs \<in> set (s_callback_events st). \<forall>r. Checked r \<in> set evs \<longrightarrow>
                     r = Some (resp\<lparr>u_body := Some (JStr (r_payload resp))\<rparr>))"
    by auto
qed

theorem fetch_body_by_content_type_witness:
  "serves_a1 \<lparr>q_url = ''/a'', q_params = []\<rparr> (JNum 5000)
      = Inr \<lparr>r_url = ''/a'', r_status = 200, r_statusText = ''OK'',
             r_headers = headers_set Map.empty ''Content-Type''
                           (''application/'' @ ''json'' @ ''; charset=utf-8''),
             r_size = 0, r_timeout = 0, r_payload = text_a1, u_body = None\<rparr>
   \<and> parse_a1 text_a1 = Inr (JObj [(''a'', JNum 1)])
   \<and> map_option s_root (settle_call jasmine parse_a1 serves_a1
         (fetch (addExpect new_spec (Runner passing [JNum 200] True)) ''/a'' JUndefined))
       = Some (Fulfilled (JObj [(''a'', JNum 1)]))
   \<and> map_option s_callback_events (settle_call jasmine parse_a1 serves_a1
         (fetch (addExpect new_spec (Runner passing [JNum 200] True)) ''/a'' JUndefined))
       = Some [[Checked (Some \<lparr>r_url = ''/a'', r_status = 200, r_statusText = ''OK'',
             r_headers = headers_set Map.empty ''Content-Type''
                           (''application/'' @ ''json'' @ ''; charset=utf-8''),
             r_size = 0, r_timeout = 0, r_payload = text_a1,
             u_body = Some (JObj [(''a'', JNum 1)])\<rparr>)]]
   \<and> (\<forall>pre post. ''text/plain'' \<noteq> pre @ ''json'' @ post)
   \<and> map_option s_root (settle_call jasmine parse_a1 serves_plain
         (fetch (addExpect new_spec (Runner passing [JNum 200] True)) ''/a'' JUndefined))
       = Some (Fulfilled (JStr text_a1))
   \<and> map_option s_root (settle_call jasmine parse_a1 serves_text
         (fetch (addExpect new_spec (Runner passing [JNum 200] True)) ''/a'' JUndefined))
       = Some (Fulfilled (JStr ''hello''))"
proof -
  define rq where "rq = \<lparr>q_url = ''/a'', q_params = []\<rparr>"
  define t where "t = \<lparr>t_source = Network rq (JNum 5000), t_reactions = []\<rparr>"
  define s where "s = (addExpect new_spec (Runner passing [JNum 200] True))
      \<lparr>u_request := Some rq, u_fetch := Some t\<rparr>"
  define ra where "ra = \<lparr>r_url = ''/a'', r_status = 200, r_statusText = ''OK'',
             r_headers = headers_set Map.empty ''Content-Type''
                           (''application/'' @ ''json'' @ ''; charset=utf-8''),
             r_size = 0, r_timeout = 0, r_payload = text_a1, u_body = None\<rparr>"
  define rp where "rp = \<lparr>r_url = ''/a'', r_status = 200, r_statusText = ''OK'',
             r_headers = headers_set Map.empty ''Content-Type'' ''text/plain'',
             r_size = 0, r_timeout = 0, r_payload = text_a1, u_body = None\<rparr>"
  define rt where "rt = \<lparr>r_url = ''/a'', r_status = 200, r_statusText = ''OK'',
             r_headers = Map.empty,
             r_size = 0, r_timeout = 0, r_payload = ''hello'', u_body = None\<rparr>"
  have f: "fetch (addExpect new_spec (Runner passing [JNum 200] True)) ''/a'' JUndefined = Inr s"
    by (simp add: fetch_def fetchParams_def new_spec_def addExpect_def timeout_getter_def or_empty_def
        object_assign_def TIMEOUT_DEFAULT_def s_def t_def rq_def)
  have t1: "u_fetch s = Some t" and t2: "t_source t = Network rq (JNum 5000)"
    by (simp_all add: s_def t_def)
  have ra: "serves_a1 rq (JNum 5000) = Inr ra" by (simp add: serves_a1_def ra_def rq_def)
  have rp: "serves_plain rq (JNum 5000) = Inr rp" by (simp add: serves_plain_def rp_def rq_def)
  have rt: "serves_text rq (JNum 5000) = Inr rt" by (simp add: serves_text_def rt_def rq_def)
  have ha: "r_headers ra ''Content-Type'' = Some (''application/'' @ ''json'' @ ''; charset=utf-8'')"
    by (simp add: ra_def headers_set_def)
  have pa: "parse_a1 (r_payload ra) = Inr (JObj [(''a'', JNum 1)])"
    by (simp add: ra_def parse_a1_def)
  have np: "\<forall>pre post. ''text/plain'' \<noteq> pre @ ''json'' @ post"
  proof -
    have "indexOf_from 0 ''text/plain'' ''json'' = - 1" by simp
    with indexOf_from_found [of 0 "''text/plain''" "''json''"] show ?thesis by auto
  qed
  have hp: "r_headers rp ''Content-Type'' = Some ''text/plain''"
    by (simp add: rp_def headers_set_def)
  have ht: "r_headers rt ''Content-Type'' = None" by (simp add: rt_def)
  from fetch_body_by_content_type [where s = s and t = t and rq = rq and tmo = "JNum 5000"
      and transport = serves_a1 and resp = ra and parse = parse_a1 and h = jasmine] t1 t2 ra ha pa
  obtain st where st: "settle jasmine parse_a1 serves_a1 s = Some st"
    and root: "s_root st = Fulfilled (JObj [(''a'', JNum 1)])"
    and chk: "\<forall>evs \<in> set (s_callback_events st). \<forall>r. Checked r \<in> set evs \<longrightarrow>
                r = Some (ra\<lparr>u_body := Some (JObj [(''a'', JNum 1)])\<rparr>)"
    by blast
  have dj: "declares_json ra"
    by (simp add: declares_json_def headers_has_def headers_get_def ra_def headers_set_def indexOf_def)
  have shape: "\<exists>r. s_callback_events st = [[Checked r]]"
    using st ra dj pa
    by (auto simp: settle_def t1 t2 acquire_def decode_def resolved_def runExpects_def
        register_def finish_def reactions_of_def run_reaction_def reaction_fn_def
        reaction_events_def run_runner_def passing_def s_def t_def new_spec_def addExpect_def
        split: prod.splits)
  then obtain r where r: "s_callback_events st = [[Checked r]]" by blast
  with chk have "r = Some (ra\<lparr>u_body := Some (JObj [(''a'', JNum 1)])\<rparr>)" by simp
  with r st root have A: "map_option s_root (settle_call jasmine parse_a1 serves_a1
         (fetch (addExpect new_spec (Runner passing [JNum 200] True)) ''/a'' JUndefined))
       = Some (Fulfilled (JObj [(''a'', JNum 1)]))
     \<and> map_option s_callback_events (settle_call jasmine parse_a1 serves_a1
         (fetch (addExpect new_spec (Runner passing [JNum 200] True)) ''/a'' JUndefined))
       = Some [[Checked (Some (ra\<lparr>u_body := Some (JObj [(''a'', JNum 1)])\<rparr>))]]"
    by (simp add: settle_call_def f)
  from fetch_body_by_content_type [where s = s and t = t and rq = rq and tmo = "JNum 5000"
      and transport = serves_plain and resp = rp and parse = parse_a1 and h = jasmine] t1 t2 rp hp np
  have B: "map_option s_root (settle_call jasmine parse_a1 serves_plain
         (fetch (addExpect new_spec (Runner passing [JNum 200] True)) ''/a'' JUndefined))
       = Some (Fulfilled (JStr text_a1))"
    by (auto simp: settle_call_def f rp_def)
  from fetch_body_by_content_type [where s = s and t = t and rq = rq and tmo = "JNum 5000"
      and transport = serves_text and resp = rt and parse = parse_a1 and h = jasmine] t1 t2 rt ht
  have C: "map_option s_root (settle_call jasmine parse_a1 serves_text
         (fetch (addExpect new_spec (Runner passing [JNum 200] True)) ''/a'' JUndefined))
       = Some (Fulfilled (JStr ''hello''))"
    by (auto simp: settle_call_def f rt_def)
  have pa': "parse_a1 text_a1 = Inr (JObj [(''a'', JNum 1)])" by (simp add: parse_a1_def)
  show ?thesis
    using ra pa' A np B C unfolding rq_def ra_def by simp
qed

subsection \<open>The failure channel\<close>











text \<open>
  The handler \<^verbatim>\<open>fromJSON\<close> gives to \<^verbatim>\<open>.catch\<close> is the bare function. It is reached
  only when decoding the synthetic response rejects; when the transport decodes the
  text the response was built from, the chain in front of it fulfils.
\<close>

lemma synthetic_rejection_unbound:
  assumes "u_fetch s = Some t" and "t_source t = Synthetic resp"
      and "parse (r_payload resp) = Inl e"
  shows "\<exists>st. settle h parse transport s = Some st
          \<and> s_root_events st = [Channel Unbound e]
          \<and> s_root st = Rejected (TypeError ''Cannot read property _expectError of undefined'')"
  using assms
  by (auto simp: settle_def acquire_def catch_this_def fetchErrorHandler_def finish_def)




subsection \<open>Chains of continuations\<close>

text \<open>
  The argument of a continuation depends on the resolved value of the root task and
  on \<^verbatim>\<open>_lastResult\<close> alone; after a fulfilled promise was stored there, every later
  continuation is called with that promise's value.
\<close>

lemma run_reaction_user:
  "run_reaction h s b (UserThen f) = (s', ev) \<Longrightarrow>
     u_lastResult s' = fst (then_callback b (u_lastResult s) f)
     \<and> called_with ev = fst (snd (then_callback b (u_lastResult s) f))"
  by (auto simp: run_reaction_def Let_def reaction_fn_def reaction_events_def fetchErrorHandler_def
      split: prod.splits option.splits if_splits)

lemma chain_args_Cons:
  "chain_args h s b (f # fs) =
     fst (snd (then_callback b (u_lastResult s) f))
       # chain_args h (fst (run_reaction h s b (UserThen f))) b fs"
  using run_reaction_user [of h s b f]
  by (cases "run_reaction h s b (UserThen f)")
     (auto simp: chain_args_def split: prod.splits)

lemma chain_args_Nil: "chain_args h s b [] = []"
  by (simp add: chain_args_def)

lemma lastResult_after:
  "u_lastResult (fst (run_reaction h s b (UserThen f))) = fst (then_callback b (u_lastResult s) f)"
  using run_reaction_user [of h s b f]
  by (cases "run_reaction h s b (UserThen f)") auto

lemma chain_args_lastResult:
  "u_lastResult s = u_lastResult s' \<Longrightarrow> chain_args h s b fs = chain_args h' s' b fs"
proof (induction fs arbitrary: s s')
  case Nil
  then show ?case by (simp add: chain_args_Nil)
next
  case (Cons f fs)
  have "u_lastResult (fst (run_reaction h s b (UserThen f)))
      = u_lastResult (fst (run_reaction h' s' b (UserThen f)))"
    by (simp add: lastResult_after Cons.prems)
  from Cons.IH [OF this] show ?case
    by (simp add: chain_args_Cons Cons.prems)
qed

lemma chain_args_after_promise:
  "u_lastResult s = Prom (Fulfilled v) \<Longrightarrow> chain_args h s b gs = map (\<lambda>g. Some v) gs"
proof (induction gs arbitrary: s)
  case Nil
  then show ?case by (simp add: chain_args_Nil)
next
  case (Cons g gs)
  have "u_lastResult (fst (run_reaction h s b (UserThen g))) = Prom (Fulfilled v)"
    by (simp add: lastResult_after Cons.prems)
  from Cons.IH [OF this] show ?case
    by (simp add: chain_args_Cons Cons.prems)
qed

lemma called_on_plain:
  "fst (snd (then_callback b (Plain x) g)) = Some b"
  by (simp split: cont_result.splits)

lemma nothing_keeps_argument:
  assumes "\<forall>x. f x = Returned (Plain JUndefined)"
  shows "fst (snd (then_callback b l f)) = Some a \<Longrightarrow>
         fst (snd (then_callback b (fst (then_callback b l f)) g)) = Some a"
  using assms
  by (induction b l f rule: then_callback.induct)
     (auto simp: called_on_plain simp del: then_callback.simps(1) split: prod.splits,
      auto split: cont_result.splits)

text \<open>
  C8. A continuation that returns nothing leaves the flowing value as it is: the
  next continuation is called with the argument this one was called with. On a spec
  with no asynchronous result pending that argument is the response body.
\<close>

theorem then_nothing_passes_value:
  assumes "\<forall>x. f x = Returned (Plain JUndefined)"
  shows "(\<forall>a. hd (chain_args h s b [f, g]) = Some a \<longrightarrow> chain_args h s b [f, g] = [Some a, Some a])
       \<and> (\<forall>x. u_lastResult s = Plain x \<longrightarrow> chain_args h s b [f, g] = [Some b, Some b])"
proof (intro conjI allI impI)
  fix a assume "hd (chain_args h s b [f, g]) = Some a"
  then have c: "fst (snd (then_callback b (u_lastResult s) f)) = Some a"
    by (simp add: chain_args_Cons)
  from nothing_keeps_argument [OF assms c, of g]
  show "chain_args h s b [f, g] = [Some a, Some a]"
    by (simp add: chain_args_Cons chain_args_Nil c lastResult_after)
next
  fix x assume "u_lastResult s = Plain x"
  then show "chain_args h s b [f, g] = [Some b, Some b]"
    using assms by (simp add: chain_args_Cons chain_args_Nil lastResult_after split: cont_result.splits)
qed

theorem then_nothing_passes_value_witness:
  "(\<forall>x. nothing x = Returned (Plain JUndefined))
   \<and> chain_args jasmine new_spec (JStr ''body'') [nothing, echo] = [Some (JStr ''body''), Some (JStr ''body'')]
   \<and> chain_args jasmine (new_spec\<lparr>u_lastResult := Prom (Fulfilled (JNum 7))\<rparr>) (JStr ''body'') [nothing, echo]
        = [Some (JNum 7), Some (JNum 7)]"
proof -
  have n: "\<forall>x. nothing x = Returned (Plain JUndefined)" by (simp add: nothing_def)
  have h: "hd (chain_args jasmine (new_spec\<lparr>u_lastResult := Prom (Fulfilled (JNum 7))\<rparr>) (JStr ''body'') [nothing, echo])
      = Some (JNum 7)"
    by (simp add: chain_args_Cons)
  have p: "u_lastResult new_spec = Plain JUndefined" by (simp add: new_spec_def)
  from then_nothing_passes_value [OF n, of jasmine new_spec "JStr ''body''" echo] p
       then_nothing_passes_value [OF n, of jasmine "new_spec\<lparr>u_lastResult := Prom (Fulfilled (JNum 7))\<rparr>" "JStr ''body''" echo] h n
  show ?thesis by blast
qed

text \<open>
  The continuation handed to an asynchronous \<^verbatim>\<open>_lastResult\<close> is called with what that
  value resolves to, and is not called when it never resolves.
\<close>

lemma called_is_resolved_result:
  "\<forall>y. a \<noteq> Plain y \<Longrightarrow> fst (snd (then_callback b a g)) = resolved_result a"
proof (induction a arbitrary: b)
  case (Plain x)
  then show ?case by simp
next
  case (Prom o1)
  then show ?case by (cases o1) simp_all
next
  case (SpecV root l)
  show ?case
  proof (cases root)
    case None
    then show ?thesis by simp
  next
    case (Some o1)
    show ?thesis
    proof (cases o1)
      case (Rejected e)
      with Some show ?thesis by simp
    next
      case (Fulfilled b2)
      show ?thesis
      proof (cases "\<exists>y. l = Plain y")
        case True
        then obtain y where "l = Plain y" by blast
        with Some Fulfilled show ?thesis
          by (simp add: called_on_plain del: then_callback.simps(1) split: prod.splits)
             (metis called_on_plain fst_conv snd_conv)
      next
        case False
        then have nl: "\<forall>y. l \<noteq> Plain y" by blast
        from SpecV.IH [OF nl, of b2] have "fst (snd (then_callback b2 l g)) = resolved_result l" .
        moreover have "resolved_result (SpecV (Some (Fulfilled b2)) l) = resolved_result l"
          using nl by (cases l) simp_all
        ultimately show ?thesis
          using Some Fulfilled by (auto split: prod.splits)
      qed
    qed
  qed
qed

text \<open>
  C2, as the code has it, on a spec with no asynchronous result pending. When a
  continuation returns an asynchronous value, the next continuation is called with
  what that value resolves to: the value a promise fulfils with; the response body
  of a started spec, or, while a continuation of that spec has left an asynchronous
  result pending on it, what that result resolves to. When the value is a promise
  that fulfils with \<open>v\<close>, every later continuation is called with \<open>v\<close>, whatever the
  continuations in between return. When it is a started spec with nothing pending
  and the response body \<open>b2\<close>, the next continuation runs on that spec with \<open>b2\<close>,
  and the asynchronous value this one returns is flattened in turn: the continuation
  after it is called with what that value resolves to.
\<close>

theorem then_flattening:
  assumes "u_lastResult s = Plain x"
  shows "(f b = Returned a \<and> (\<forall>y. a \<noteq> Plain y) \<longrightarrow>
            chain_args h s b [f, g] = [Some b, resolved_result a])
       \<and> (f b = Returned (Prom (Fulfilled v)) \<longrightarrow>
            chain_args h s b (f # gs) = Some b # map (\<lambda>g. Some v) gs)
       \<and> (f b = Returned (SpecV (Some (Fulfilled b2)) (Plain y))
            \<and> g b2 = Returned a' \<and> (\<forall>z. a' \<noteq> Plain z) \<longrightarrow>
            chain_args h s b [f, g, k] = [Some b, Some b2, resolved_result a'])"
proof -
  have one: "chain_args h s b [f, g] = [Some b, resolved_result a]"
    if "f b = Returned a \<and> (\<forall>y. a \<noteq> Plain y)"
    using that called_is_resolved_result [of a b g]
    by (simp add: chain_args_Cons chain_args_Nil lastResult_after assms)
  have sticky: "chain_args h s b (f # gs) = Some b # map (\<lambda>g. Some v) gs"
    if f: "f b = Returned (Prom (Fulfilled v))"
  proof -
    have "u_lastResult (fst (run_reaction h s b (UserThen f))) = Prom (Fulfilled v)"
      by (simp add: lastResult_after assms f)
    from chain_args_after_promise [OF this] show ?thesis
      by (simp add: chain_args_Cons assms f)
  qed
  have two: "chain_args h s b [f, g, k] = [Some b, Some b2, resolved_result a']"
    if "f b = Returned (SpecV (Some (Fulfilled b2)) (Plain y))
            \<and> g b2 = Returned a' \<and> (\<forall>z. a' \<noteq> Plain z)"
    using that called_is_resolved_result [of a' b2 k]
    by (auto simp: chain_args_Cons chain_args_Nil lastResult_after assms split: prod.splits)
  show ?thesis
    using one sticky two by blast
qed

theorem then_flattening_witness:
  "u_lastResult new_spec = Plain JUndefined
   \<and> promise_of 1 (JStr ''b'') = Returned (Prom (Fulfilled (JNum 1)))
   \<and> chain_args jasmine new_spec (JStr ''b'') [promise_of 1, promise_of 2, echo]
        = [Some (JStr ''b''), Some (JNum 1), Some (JNum 1)]
   \<and> spec_pending (JStr ''b2'') 9 (JStr ''b'')
        = Returned (SpecV (Some (Fulfilled (JStr ''b2''))) (Prom (Fulfilled (JNum 9))))
   \<and> chain_args jasmine new_spec (JStr ''b'') [spec_pending (JStr ''b2'') 9, echo]
        = [Some (JStr ''b''), Some (JNum 9)]
   \<and> spec_with_body (JStr ''b2'') (JStr ''b'')
        = Returned (SpecV (Some (Fulfilled (JStr ''b2''))) (Plain JUndefined))
   \<and> promise_of 2 (JStr ''b2'') = Returned (Prom (Fulfilled (JNum 2)))
   \<and> chain_args jasmine new_spec (JStr ''b'') [spec_with_body (JStr ''b2''), promise_of 2, echo]
        = [Some (JStr ''b''), Some (JStr ''b2''), Some (JNum 2)]"
proof -
  have p: "u_lastResult new_spec = Plain JUndefined" by (simp add: new_spec_def)
  have a: "promise_of 1 (JStr ''b'') = Returned (Prom (Fulfilled (JNum 1)))"
    by (simp add: promise_of_def)
  have b: "spec_with_body (JStr ''b2'') (JStr ''b'')
      = Returned (SpecV (Some (Fulfilled (JStr ''b2''))) (Plain JUndefined))"
    by (simp add: spec_with_body_def)
  have c: "promise_of 2 (JStr ''b2'') = Returned (Prom (Fulfilled (JNum 2)))"
    by (simp add: promise_of_def)
  have d: "spec_pending (JStr ''b2'') 9 (JStr ''b'')
      = Returned (SpecV (Some (Fulfilled (JStr ''b2''))) (Prom (Fulfilled (JNum 9))))"
    by (simp add: spec_pending_def)
  from then_flattening [OF p, where f = "promise_of 1" and b = "JStr ''b''" and v = "JNum 1"
      and gs = "[promise_of 2, echo]" and h = jasmine] a
  have A: "chain_args jasmine new_spec (JStr ''b'') [promise_of 1, promise_of 2, echo]
        = [Some (JStr ''b''), Some (JNum 1), Some (JNum 1)]"
    by simp
  from then_flattening [OF p, where f = "spec_pending (JStr ''b2'') 9" and b = "JStr ''b''"
      and a = "SpecV (Some (Fulfilled (JStr ''b2''))) (Prom (Fulfilled (JNum 9)))"
      and g = echo and h = jasmine] d
  have D: "chain_args jasmine new_spec (JStr ''b'') [spec_pending (JStr ''b2'') 9, echo]
        = [Some (JStr ''b''), Some (JNum 9)]"
    by simp
  from then_flattening [OF p, where f = "spec_with_body (JStr ''b2'')" and b = "JStr ''b''"
      and ?b2.0 = "JStr ''b2''" and y = JUndefined and g = "promise_of 2"
      and a' = "Prom (Fulfilled (JNum 2))" and k = echo and h = jasmine] b c
  have B: "chain_args jasmine new_spec (JStr ''b'') [spec_with_body (JStr ''b2''), promise_of 2, echo]
        = [Some (JStr ''b''), Some (JStr ''b2''), Some (JNum 2)]"
    by simp
  show ?thesis using p a b c d A B D by simp
qed

text \<open>
  C2 as stated fails at the second level when the first asynchronous value is a
  promise: in \<^verbatim>\<open>fromJSON({a: 1}).then(f1).then(f2).then(f3)\<close> with \<open>f1\<close> returning a
  promise of 1 and \<open>f2\<close> a promise of 2, \<open>f3\<close> is called with 1. (The fourth
  callback is the assertion loop.)
\<close>

theorem second_promise_not_flattened:
  "settled_args (settle_call jasmine parse_a1 offline
       (then_all (fromJSON stringify_a1 new_spec (JObj [(''a'', JNum 1)]))
          [promise_of 1, promise_of 2, echo]))
     = [Some (JObj [(''a'', JNum 1)]), Some (JNum 1), Some (JNum 1), None]"
  by (simp add: fromJSON_def stringify_a1_def Let_def then_m_def register_def
      settle_call_def settle_def acquire_def parse_a1_def resolved_def runExpects_def
      finish_def reactions_of_def run_reaction_def reaction_fn_def reaction_events_def
      promise_of_def echo_def new_spec_def settled_args_def)

end
